theory Spec2Isabelle
  imports Main
begin

section \<open>Air Lift: the hostess and the passengers over shared memory and semaphores\<close>

text \<open>
  The development embeds \<^verbatim>\<open>semSharedMemHostess.c\<close> and \<^verbatim>\<open>semSharedMemPassenger.c\<close>.
  Each process is a control-flow automaton whose program counter names the source line of
  the gate (semaphore) operation it performs next. One step of a process performs that
  gate operation and then runs the straight-line code that follows it, up to the next gate
  operation. The processes are interleaved by a scheduler that picks the actor of every
  step; a \<^verbatim>\<open>semDown\<close> on a semaphore whose value is zero is not enabled (the process is
  blocked). The configurations of a run are therefore the points between gate operations;
  the body of a critical region runs in the step that takes the mutex, and every point at
  which the mutex is free is a configuration. The calls to the logging functions
  (\<^verbatim>\<open>saveState\<close>, \<^verbatim>\<open>savePassengerChecked\<close>, \<^verbatim>\<open>saveFlightDeparted\<close>), which are not among the
  sources and whose results the programs do not use, are left out.
\<close>

subsection \<open>Problem constants and shared data\<close>

text \<open>
  \<^verbatim>\<open>probConst.h\<close> is not among the sources: its macros \<^verbatim>\<open>N\<close>, \<^verbatim>\<open>MINFC\<close> and \<^verbatim>\<open>MAXFC\<close>
  are parameters of every definition.
\<close>

record prob_const =
  N :: nat
  MINFC :: int
  MAXFC :: int

datatype hostess_stat = WAIT_FOR_FLIGHT | WAIT_FOR_PASSENGER | CHECK_PASSPORT | READY_TO_FLIGHT

text \<open>
  Modelled from the spec: the status \<open>UNSTARTED\<close> that a passenger has before it enqueues
  (the spec's ``unstarted''); the shared region is initialised by code that is not among
  the sources. The passenger's program writes \<open>IN_QUEUE\<close>, \<open>IN_FLIGHT\<close> and
  \<open>AT_DESTINATION\<close>.
\<close>

datatype passenger_stat = UNSTARTED | IN_QUEUE | IN_FLIGHT | AT_DESTINATION

text \<open>
  The fields of \<^verbatim>\<open>sh->fSt\<close> that the two programs touch. \<^verbatim>\<open>probDataStruct.h\<close> is not among
  the sources; the counters are compared with and returned as C \<^verbatim>\<open>int\<close> and are integers
  here (they are shown below to stay between 0 and \<open>N\<close> as long as no gate operation
  fails). The array \<^verbatim>\<open>nPassengersInFlight\<close> is a store indexed by integers: its declared
  length is not known, so no bound is modelled.
\<close>

record full_stat =
  hostessStat :: hostess_stat
  passengerStat :: "nat \<Rightarrow> passenger_stat"
  nPassInQueue :: int
  nPassInFlight :: int
  totalPassBoarded :: int
  nFlight :: int
  nPassengersInFlight :: "int \<Rightarrow> int"
  passengerChecked :: nat
  finished :: bool

subsection \<open>Semaphores\<close>

datatype sem = mutex | passengersInQueue | passengersWaitInQueue | idShown
  | readyForBoarding | readyToFlight | passengersWaitInFlight | planeEmpty

text \<open>
  The value a gate operation returns: \<open>Success\<close> is 0, \<open>Failure\<close> is -1. Whether an
  operation fails is decided by the environment (for instance the removal of the
  semaphore set), so it is an input of every step. The programs test the value against
  -1, except at line 347 of the hostess and line 203 of the passenger, which test it
  against 0; with these two values the tests agree.
\<close>

datatype outcome = Success | Failure

subsection \<open>Program counters and configurations\<close>

text \<open>
  A program counter \<open>Hn\<close> (hostess) or \<open>Pn\<close> (passenger) says that the process is about to
  perform the gate operation at line \<open>n\<close> of its source file. \<open>H_return\<close> and \<open>P_return\<close>
  are reached when the life cycle in \<^verbatim>\<open>main\<close> is over; \<open>H_exit_failure\<close> and
  \<open>P_exit_failure\<close> are reached through \<^verbatim>\<open>perror\<close> and \<^verbatim>\<open>exit(EXIT_FAILURE)\<close>, and
  carry the message given to \<^verbatim>\<open>perror\<close>.
\<close>

datatype hostess_pc =
    H154 | H164 | H171
  | H188 | H198 | H205
  | H230 | H237 | H248 | H255 | H261 | H290
  | H321 | H340 | H347
  | H_return | H_exit_failure string

datatype passenger_pc =
    P151 | P162 | P169 | P176 | P184 | P196 | P203
  | P224 | P227 | P239 | P247
  | P_return | P_exit_failure string

text \<open>
  Modelled from the spec: the pilot, whose program is not among the sources. Once per
  flight cycle it signals \<open>readyForBoarding\<close>, blocks on \<open>readyToFlight\<close>, reads
  \<open>nPassInFlight\<close> under the mutex before any passenger is released, signals
  \<open>passengersWaitInFlight\<close> once per passenger counted, and blocks on \<open>planeEmpty\<close>.
\<close>

datatype pilot_pc =
    PL_signal_boarding | PL_wait_ready | PL_lock | PL_unlock int | PL_drop int
  | PL_wait_empty | PL_exit_failure

text \<open>
  A configuration: the shared region, the values of the semaphores, and for each process
  its program counter and local variables. \<open>nPassengers\<close> and \<open>lastPassengerInFlight\<close>
  are the locals of the hostess's \<^verbatim>\<open>main\<close>; \<open>last_checkPassport\<close> is the local \<^verbatim>\<open>last\<close> of
  \<^verbatim>\<open>checkPassport\<close> (renamed: \<open>last\<close> is a list function).
\<close>

record config =
  fSt :: full_stat
  semval :: "sem \<Rightarrow> nat"
  hostess :: hostess_pc
  nPassengers :: int
  lastPassengerInFlight :: bool
  last_checkPassport :: bool
  passenger :: "nat \<Rightarrow> passenger_pc"
  pilot :: pilot_pc

datatype actor = Hostess | Passenger nat | Pilot

subsection \<open>Gate operations\<close>

text \<open>
  Modelled from the spec: \<^verbatim>\<open>semDown\<close> and \<^verbatim>\<open>semUp\<close>, whose implementation is not among
  the sources. A gate is a counting semaphore. A successful \<^verbatim>\<open>semDown\<close> needs a positive
  value and decrements it; at value zero the caller is blocked, which is the result
  \<open>None\<close>. A successful \<^verbatim>\<open>semUp\<close> increments the value. A failing operation returns
  without changing the semaphore.
\<close>

definition semDown :: "sem \<Rightarrow> outcome \<Rightarrow> config \<Rightarrow> config option" where
  "semDown s r c =
     (case r of
        Failure \<Rightarrow> Some c
      | Success \<Rightarrow>
          if semval c s = 0 then None
          else Some (c\<lparr>semval := (semval c)(s := semval c s - 1)\<rparr>))"

definition semUp :: "sem \<Rightarrow> outcome \<Rightarrow> config \<Rightarrow> config option" where
  "semUp s r c =
     (case r of
        Failure \<Rightarrow> Some c
      | Success \<Rightarrow> Some (c\<lparr>semval := (semval c)(s := semval c s + 1)\<rparr>))"

subsection \<open>The hostess\<close>

definition down_HT :: string where
  "down_HT = ''error on the down operation for semaphore access (HT)''"

definition up_HT :: string where
  "up_HT = ''error on the up operation for semaphore access (HT)''"

text \<open>
  \<^verbatim>\<open>if (op == -1) { perror (msg); exit (EXIT_FAILURE); }\<close> followed by the code \<open>k\<close>.
\<close>

definition or_exit_HT :: "string \<Rightarrow> outcome \<Rightarrow> (config \<Rightarrow> config) \<Rightarrow> config \<Rightarrow> config" where
  "or_exit_HT msg r k c =
     (case r of Failure \<Rightarrow> c\<lparr>hostess := H_exit_failure msg\<rparr> | Success \<Rightarrow> k c)"

definition get_nPassengersInFlight :: "full_stat \<Rightarrow> int" where
  "get_nPassengersInFlight s = nPassInFlight s"

definition get_nPassengersInQueue :: "full_stat \<Rightarrow> int" where
  "get_nPassengersInQueue s = nPassInQueue s"

text \<open>Lines 267 to 269 of \<^verbatim>\<open>checkPassport\<close>: the three counter updates of a check-in.\<close>

definition checkPassport_update :: "full_stat \<Rightarrow> full_stat" where
  "checkPassport_update s =
     (let s1 = s\<lparr>nPassInQueue := nPassInQueue s - 1\<rparr>;
          s2 = s1\<lparr>nPassInFlight := nPassInFlight s1 + 1\<rparr>
      in s2\<lparr>totalPassBoarded := totalPassBoarded s2 + 1\<rparr>)"

text \<open>Lines 274 to 287 of \<^verbatim>\<open>checkPassport\<close>: the value of \<^verbatim>\<open>last\<close>.\<close>

definition checkPassport_last :: "prob_const \<Rightarrow> full_stat \<Rightarrow> bool" where
  "checkPassport_last K s =
     (if get_nPassengersInFlight s = MAXFC K then True
      else if get_nPassengersInFlight s \<ge> MINFC K \<and> get_nPassengersInQueue s = 0 then True
      else if totalPassBoarded s = int (N K) then True
      else False)"

text \<open>Lines 327 to 337 of \<^verbatim>\<open>signalReadyToFlight\<close>.\<close>

definition signalReadyToFlight_update :: "prob_const \<Rightarrow> full_stat \<Rightarrow> full_stat" where
  "signalReadyToFlight_update K s =
     (let s1 = s\<lparr>hostessStat := READY_TO_FLIGHT\<rparr>;
          s2 = s1\<lparr>nPassengersInFlight :=
                    (nPassengersInFlight s1)(nFlight s1 - 1 := nPassInFlight s1)\<rparr>
      in if totalPassBoarded s2 = int (N K) then s2\<lparr>finished := True\<rparr> else s2)"

text \<open>The test \<^verbatim>\<open>while (nPassengers < N)\<close> of \<^verbatim>\<open>main\<close>.\<close>

definition main_while :: "prob_const \<Rightarrow> config \<Rightarrow> config" where
  "main_while K c =
     (if nPassengers c < int (N K) then c\<lparr>hostess := H154\<rparr> else c\<lparr>hostess := H_return\<rparr>)"

text \<open>
  The return of \<^verbatim>\<open>checkPassport\<close> into the loop body of \<^verbatim>\<open>main\<close>:
  \<^verbatim>\<open>lastPassengerInFlight = checkPassport ()\<close>, \<^verbatim>\<open>nPassengers++\<close>, then the test
  \<^verbatim>\<open>while (!lastPassengerInFlight)\<close>, which leads back to \<^verbatim>\<open>waitForPassenger\<close> or on to
  \<^verbatim>\<open>signalReadyToFlight\<close>.
\<close>

definition main_do_while :: "config \<Rightarrow> config" where
  "main_do_while c =
     (let c1 = c\<lparr>lastPassengerInFlight := last_checkPassport c\<rparr>;
          c2 = c1\<lparr>nPassengers := nPassengers c1 + 1\<rparr>
      in if \<not> lastPassengerInFlight c2 then c2\<lparr>hostess := H188\<rparr> else c2\<lparr>hostess := H321\<rparr>)"

definition hostess_step :: "prob_const \<Rightarrow> outcome \<Rightarrow> config \<Rightarrow> config option" where
  "hostess_step K r c =
     (case hostess c of
        \<comment> \<open>waitForNextFlight\<close>
        H154 \<Rightarrow> map_option (or_exit_HT down_HT r (\<lambda>c.
                  c\<lparr>fSt := (fSt c)\<lparr>hostessStat := WAIT_FOR_FLIGHT\<rparr>, hostess := H164\<rparr>))
                  (semDown mutex r c)
      | H164 \<Rightarrow> map_option (or_exit_HT up_HT r (\<lambda>c. c\<lparr>hostess := H171\<rparr>))
                  (semUp mutex r c)
      | H171 \<Rightarrow> map_option (or_exit_HT down_HT r (\<lambda>c. c\<lparr>hostess := H188\<rparr>))
                  (semDown readyForBoarding r c)
        \<comment> \<open>waitForPassenger\<close>
      | H188 \<Rightarrow> map_option (or_exit_HT down_HT r (\<lambda>c.
                  c\<lparr>fSt := (fSt c)\<lparr>hostessStat := WAIT_FOR_PASSENGER\<rparr>, hostess := H198\<rparr>))
                  (semDown mutex r c)
      | H198 \<Rightarrow> map_option (or_exit_HT up_HT r (\<lambda>c. c\<lparr>hostess := H205\<rparr>))
                  (semUp mutex r c)
      | H205 \<Rightarrow> map_option (or_exit_HT down_HT r (\<lambda>c. c\<lparr>hostess := H230\<rparr>))
                  (semDown passengersInQueue r c)
        \<comment> \<open>checkPassport\<close>
      | H230 \<Rightarrow> map_option (or_exit_HT up_HT r (\<lambda>c. c\<lparr>hostess := H237\<rparr>))
                  (semUp passengersWaitInQueue r c)
      | H237 \<Rightarrow> map_option (or_exit_HT down_HT r (\<lambda>c.
                  c\<lparr>fSt := (fSt c)\<lparr>hostessStat := CHECK_PASSPORT\<rparr>, hostess := H248\<rparr>))
                  (semDown mutex r c)
      | H248 \<Rightarrow> map_option (or_exit_HT up_HT r (\<lambda>c. c\<lparr>hostess := H255\<rparr>))
                  (semUp mutex r c)
      | H255 \<Rightarrow> map_option (or_exit_HT down_HT r (\<lambda>c. c\<lparr>hostess := H261\<rparr>))
                  (semDown idShown r c)
      | H261 \<Rightarrow> map_option (or_exit_HT down_HT r (\<lambda>c.
                  let s = checkPassport_update (fSt c)
                  in c\<lparr>fSt := s, last_checkPassport := checkPassport_last K s,
                       hostess := H290\<rparr>))
                  (semDown mutex r c)
      | H290 \<Rightarrow> map_option (or_exit_HT up_HT r main_do_while)
                  (semUp mutex r c)
        \<comment> \<open>signalReadyToFlight\<close>
      | H321 \<Rightarrow> map_option (or_exit_HT down_HT r (\<lambda>c.
                  c\<lparr>fSt := signalReadyToFlight_update K (fSt c), hostess := H340\<rparr>))
                  (semDown mutex r c)
      | H340 \<Rightarrow> map_option (or_exit_HT up_HT r (\<lambda>c. c\<lparr>hostess := H347\<rparr>))
                  (semUp mutex r c)
      | H347 \<Rightarrow> map_option (or_exit_HT up_HT r (main_while K))
                  (semUp readyToFlight r c)
      | H_return \<Rightarrow> None
      | H_exit_failure msg \<Rightarrow> None)"

subsection \<open>The passengers\<close>

definition down_PG :: string where
  "down_PG = ''error on the down operation for semaphore access (PG)''"

definition up_PG :: string where
  "up_PG = ''error on the up operation for semaphore access (PG)''"

definition goto :: "nat \<Rightarrow> passenger_pc \<Rightarrow> config \<Rightarrow> config" where
  "goto i p c = c\<lparr>passenger := (passenger c)(i := p)\<rparr>"

definition or_exit_PG ::
  "nat \<Rightarrow> string \<Rightarrow> outcome \<Rightarrow> (config \<Rightarrow> config) \<Rightarrow> config \<Rightarrow> config" where
  "or_exit_PG i msg r k c =
     (case r of Failure \<Rightarrow> goto i (P_exit_failure msg) c | Success \<Rightarrow> k c)"

text \<open>Lines 157 and 158 of \<^verbatim>\<open>waitInQueue\<close>.\<close>

definition waitInQueue_enqueue :: "nat \<Rightarrow> full_stat \<Rightarrow> full_stat" where
  "waitInQueue_enqueue passengerId s =
     (let s1 = s\<lparr>nPassInQueue := nPassInQueue s + 1\<rparr>
      in s1\<lparr>passengerStat := (passengerStat s1)(passengerId := IN_QUEUE)\<rparr>)"

text \<open>Lines 190 and 191 of \<^verbatim>\<open>waitInQueue\<close>.\<close>

definition waitInQueue_showId :: "nat \<Rightarrow> full_stat \<Rightarrow> full_stat" where
  "waitInQueue_showId passengerId s =
     (let s1 = s\<lparr>passengerChecked := passengerId\<rparr>
      in s1\<lparr>passengerStat := (passengerStat s1)(passengerId := IN_FLIGHT)\<rparr>)"

text \<open>Lines 233 and 234 of \<^verbatim>\<open>waitUntilDestination\<close>.\<close>

definition waitUntilDestination_leave :: "nat \<Rightarrow> full_stat \<Rightarrow> full_stat" where
  "waitUntilDestination_leave passengerId s =
     (let s1 = s\<lparr>passengerStat := (passengerStat s)(passengerId := AT_DESTINATION)\<rparr>
      in s1\<lparr>nPassInFlight := nPassInFlight s1 - 1\<rparr>)"

text \<open>
  The step of passenger \<open>i\<close>. At \<open>P224\<close> the value returned by \<^verbatim>\<open>semDown\<close> is not tested:
  the passenger goes on to line 227 whatever it is. At \<open>P227\<close> the test of line 237 chooses
  between the \<^verbatim>\<open>semUp\<close> of line 239 and that of line 247.
\<close>

definition passenger_step :: "nat \<Rightarrow> outcome \<Rightarrow> config \<Rightarrow> config option" where
  "passenger_step i r c =
     (case passenger c i of
        \<comment> \<open>waitInQueue\<close>
        P151 \<Rightarrow> map_option (or_exit_PG i down_PG r (\<lambda>c.
                  goto i P162 (c\<lparr>fSt := waitInQueue_enqueue i (fSt c)\<rparr>)))
                  (semDown mutex r c)
      | P162 \<Rightarrow> map_option (or_exit_PG i up_PG r (goto i P169))
                  (semUp mutex r c)
      | P169 \<Rightarrow> map_option (or_exit_PG i up_PG r (goto i P176))
                  (semUp passengersInQueue r c)
      | P176 \<Rightarrow> map_option (or_exit_PG i down_PG r (goto i P184))
                  (semDown passengersWaitInQueue r c)
      | P184 \<Rightarrow> map_option (or_exit_PG i down_PG r (\<lambda>c.
                  goto i P196 (c\<lparr>fSt := waitInQueue_showId i (fSt c)\<rparr>)))
                  (semDown mutex r c)
      | P196 \<Rightarrow> map_option (or_exit_PG i up_PG r (goto i P203))
                  (semUp mutex r c)
      | P203 \<Rightarrow> map_option (or_exit_PG i up_PG r (goto i P224))
                  (semUp idShown r c)
        \<comment> \<open>waitUntilDestination\<close>
      | P224 \<Rightarrow> map_option (goto i P227)
                  (semDown passengersWaitInFlight r c)
      | P227 \<Rightarrow> map_option (or_exit_PG i down_PG r (\<lambda>c.
                  let s = waitUntilDestination_leave i (fSt c)
                  in goto i (if nPassInFlight s = 0 then P239 else P247) (c\<lparr>fSt := s\<rparr>)))
                  (semDown mutex r c)
      | P239 \<Rightarrow> map_option (or_exit_PG i up_PG r (goto i P247))
                  (semUp planeEmpty r c)
      | P247 \<Rightarrow> map_option (or_exit_PG i up_PG r (goto i P_return))
                  (semUp mutex r c)
      | P_return \<Rightarrow> None
      | P_exit_failure msg \<Rightarrow> None)"

subsection \<open>The pilot\<close>

text \<open>
  Modelled from the spec: a synchronization fault is fatal to the pilot, as to every
  process (section 7 of the spec).
\<close>

definition or_exit_PL :: "outcome \<Rightarrow> (config \<Rightarrow> config) \<Rightarrow> config \<Rightarrow> config" where
  "or_exit_PL r k c =
     (case r of Failure \<Rightarrow> c\<lparr>pilot := PL_exit_failure\<rparr> | Success \<Rightarrow> k c)"

text \<open>
  Modelled from the spec: the pilot's flight cycle (section 4.3 of the spec). The pilot
  reads \<open>nPassInFlight\<close> under the mutex, as section 5 of the spec requires of every
  access to the shared region.
\<close>

definition pilot_step :: "outcome \<Rightarrow> config \<Rightarrow> config option" where
  "pilot_step r c =
     (case pilot c of
        PL_signal_boarding \<Rightarrow>
          map_option (or_exit_PL r (\<lambda>c. c\<lparr>pilot := PL_wait_ready\<rparr>))
            (semUp readyForBoarding r c)
      | PL_wait_ready \<Rightarrow>
          map_option (or_exit_PL r (\<lambda>c. c\<lparr>pilot := PL_lock\<rparr>))
            (semDown readyToFlight r c)
      | PL_lock \<Rightarrow>
          map_option (or_exit_PL r (\<lambda>c. c\<lparr>pilot := PL_unlock (nPassInFlight (fSt c))\<rparr>))
            (semDown mutex r c)
      | PL_unlock k \<Rightarrow>
          map_option (or_exit_PL r (\<lambda>c.
            c\<lparr>pilot := (if 0 < k then PL_drop k else PL_wait_empty)\<rparr>))
            (semUp mutex r c)
      | PL_drop k \<Rightarrow>
          map_option (or_exit_PL r (\<lambda>c.
            c\<lparr>pilot := (if 0 < k - 1 then PL_drop (k - 1) else PL_wait_empty)\<rparr>))
            (semUp passengersWaitInFlight r c)
      | PL_wait_empty \<Rightarrow>
          map_option (or_exit_PL r (\<lambda>c. c\<lparr>pilot := PL_signal_boarding\<rparr>))
            (semDown planeEmpty r c)
      | PL_exit_failure \<Rightarrow> None)"

subsection \<open>The system\<close>

text \<open>
  One step of the system: the scheduler picks an actor, the environment picks the outcome
  of the actor's gate operation. Modelled from the spec: there is one passenger process
  for each identifier below \<open>N\<close> (\<^verbatim>\<open>main\<close> of the passenger refuses an identifier that is
  not below \<open>N\<close>).
\<close>

definition step :: "prob_const \<Rightarrow> actor \<Rightarrow> outcome \<Rightarrow> config \<Rightarrow> config option" where
  "step K a r c =
     (case a of
        Hostess \<Rightarrow> hostess_step K r c
      | Passenger i \<Rightarrow> if i < N K then passenger_step i r c else None
      | Pilot \<Rightarrow> pilot_step r c)"

text \<open>
  Modelled from the spec: the initial configuration, set up by code that is not among the
  sources. The mutex is 1, every other gate is 0, the counters are 0, nobody has a status
  yet. The hostess has run \<^verbatim>\<open>main\<close> up to its first gate operation: \<^verbatim>\<open>nPassengers = 0\<close>
  and the first test of the outer loop.
\<close>

definition init :: "prob_const \<Rightarrow> config" where
  "init K = main_while K
     \<lparr>fSt = \<lparr>hostessStat = WAIT_FOR_FLIGHT, passengerStat = (\<lambda>i. UNSTARTED),
             nPassInQueue = 0, nPassInFlight = 0, totalPassBoarded = 0, nFlight = 0,
             nPassengersInFlight = (\<lambda>n. 0), passengerChecked = 0, finished = False\<rparr>,
      semval = (\<lambda>s. if s = mutex then 1 else 0),
      hostess = H154, nPassengers = 0, lastPassengerInFlight = False,
      last_checkPassport = False,
      passenger = (\<lambda>i. P151), pilot = PL_signal_boarding\<rparr>"

text \<open>
  A run in which no gate operation fails: the scheduler's choices are the list of actors.
  The result is \<open>None\<close> when the schedule picks an actor that cannot move.
\<close>

fun run :: "prob_const \<Rightarrow> actor list \<Rightarrow> config \<Rightarrow> config option" where
  "run K [] c = Some c"
| "run K (a # as) c = (case step K a Success c of None \<Rightarrow> None | Some c' \<Rightarrow> run K as c')"

subsection \<open>Schedules and the configurations they reach\<close>

text \<open>
  \<open>after K as\<close> is the configuration reached from the initial one when the scheduler picks
  the actors \<open>as\<close> in turn and no gate operation fails; picking a blocked or terminated
  actor leaves the configuration as it is.
\<close>

definition move :: "prob_const \<Rightarrow> actor \<Rightarrow> config \<Rightarrow> config" where
  "move K a c = (case step K a Success c of None \<Rightarrow> c | Some c' \<Rightarrow> c')"

definition after :: "prob_const \<Rightarrow> actor list \<Rightarrow> config" where
  "after K as = foldl (\<lambda>c a. move K a c) (init K) as"

text \<open>An air lift with a single passenger, and one of its schedules, cut at several points.\<close>

definition K1 :: prob_const where
  "K1 = \<lparr>N = 1, MINFC = 1, MAXFC = 1\<rparr>"

definition sched_enqueue :: "actor list" where
  "sched_enqueue = [Passenger 0, Passenger 0]"

definition sched_to_H261 :: "actor list" where
  "sched_to_H261 =
     [Passenger 0, Passenger 0, Passenger 0, Pilot,
      Hostess, Hostess, Hostess, Hostess, Hostess, Hostess, Hostess, Hostess, Hostess,
      Passenger 0, Passenger 0, Passenger 0, Passenger 0, Hostess]"

definition sched_to_H321 :: "actor list" where
  "sched_to_H321 = sched_to_H261 @ [Hostess, Hostess]"

definition sched_to_P227 :: "actor list" where
  "sched_to_P227 = sched_to_H321 @ [Hostess, Hostess, Hostess, Pilot, Pilot, Pilot, Pilot,
      Passenger 0]"

definition sched_to_P239 :: "actor list" where
  "sched_to_P239 = sched_to_P227 @ [Passenger 0]"

definition sched_full :: "actor list" where
  "sched_full = sched_to_P239 @ [Passenger 0, Passenger 0, Pilot, Pilot]"

text \<open>
  The configuration in which the hostess is about to enter the critical region of
  \<^verbatim>\<open>signalReadyToFlight\<close>, with \<open>nFlight\<close> set to 1, the number of a first flight when
  flights are numbered from one.
\<close>

definition flight_one :: config where
  "flight_one = (after K1 sched_to_H321)\<lparr>fSt := (fSt (after K1 sched_to_H321))\<lparr>nFlight := 1\<rparr>\<rparr>"

text \<open>The shared region with another value in \<open>passengerChecked\<close>.\<close>

definition set_passengerChecked :: "nat \<Rightarrow> config \<Rightarrow> config" where
  "set_passengerChecked v c = c\<lparr>fSt := (fSt c)\<lparr>passengerChecked := v\<rparr>\<rparr>"

text \<open>
  The hostess alone: her steps in sequence, with the outcomes of her gate operations.
\<close>

fun hostess_run :: "prob_const \<Rightarrow> outcome list \<Rightarrow> config \<Rightarrow> config option" where
  "hostess_run K [] c = Some c"
| "hostess_run K (r # rs) c =
     (case hostess_step K r c of None \<Rightarrow> None | Some c' \<Rightarrow> hostess_run K rs c')"

subsection \<open>Counting passengers, and the invariants of the protocol\<close>

text \<open>
  \<open>pos\<close> numbers the program counters of a passenger in program order. \<open>weigh n g ps\<close>
  sums the weight \<open>g\<close> of the program counters of the passengers \<open>0, \<dots>, n - 1\<close>; with the
  weight \<open>at p\<close> it counts the passengers at \<open>p\<close>, with \<open>past p\<close> those at \<open>p\<close> or beyond.
  \<open>hin S h\<close> is 1 when the hostess's program counter \<open>h\<close> is in \<open>S\<close>, and 0 otherwise.
\<close>

fun pos :: "passenger_pc \<Rightarrow> nat" where
  "pos P151 = 0" | "pos P162 = 1" | "pos P169 = 2" | "pos P176 = 3" | "pos P184 = 4"
| "pos P196 = 5" | "pos P203 = 6" | "pos P224 = 7" | "pos P227 = 8" | "pos P239 = 9"
| "pos P247 = 10" | "pos P_return = 11" | "pos (P_exit_failure msg) = 12"

definition past :: "passenger_pc \<Rightarrow> passenger_pc \<Rightarrow> int" where
  "past p0 p = (if pos p0 \<le> pos p then 1 else 0)"

definition at :: "passenger_pc \<Rightarrow> passenger_pc \<Rightarrow> int" where
  "at p0 p = (if p = p0 then 1 else 0)"

definition weigh :: "nat \<Rightarrow> (passenger_pc \<Rightarrow> int) \<Rightarrow> (nat \<Rightarrow> passenger_pc) \<Rightarrow> int" where
  "weigh n g ps = (\<Sum>i<n. g (ps i))"

definition hin :: "hostess_pc set \<Rightarrow> hostess_pc \<Rightarrow> int" where
  "hin S h = (if h \<in> S then 1 else 0)"

text \<open>The number of passengers, among the first \<open>n\<close>, whose status is \<open>s\<close>.\<close>

definition count_stat :: "nat \<Rightarrow> passenger_stat \<Rightarrow> (nat \<Rightarrow> passenger_stat) \<Rightarrow> int" where
  "count_stat n s st = (\<Sum>i<n. if st i = s then 1 else 0)"

text \<open>The status a passenger has written last, by its program counter.\<close>

fun stat_of :: "passenger_pc \<Rightarrow> passenger_stat" where
  "stat_of P151 = UNSTARTED"
| "stat_of P162 = IN_QUEUE" | "stat_of P169 = IN_QUEUE"
| "stat_of P176 = IN_QUEUE" | "stat_of P184 = IN_QUEUE"
| "stat_of P196 = IN_FLIGHT" | "stat_of P203 = IN_FLIGHT"
| "stat_of P224 = IN_FLIGHT" | "stat_of P227 = IN_FLIGHT"
| "stat_of P239 = AT_DESTINATION" | "stat_of P247 = AT_DESTINATION"
| "stat_of P_return = AT_DESTINATION"
| "stat_of (P_exit_failure msg) = UNSTARTED"

text \<open>The order of the statuses.\<close>

fun stat_rank :: "passenger_stat \<Rightarrow> nat" where
  "stat_rank UNSTARTED = 0"
| "stat_rank IN_QUEUE = 1"
| "stat_rank IN_FLIGHT = 2"
| "stat_rank AT_DESTINATION = 3"

text \<open>
  Mutual exclusion: the mutex is free, or exactly one process is between its
  \<^verbatim>\<open>semDown\<close> and its \<^verbatim>\<open>semUp\<close> of the mutex.
\<close>

definition inv_mutex :: "prob_const \<Rightarrow> config \<Rightarrow> bool" where
  "inv_mutex K c =
     (int (semval c mutex) + hin {H164, H198, H248, H290, H340} (hostess c)
        + weigh (N K) (at P162) (passenger c) + weigh (N K) (at P196) (passenger c)
        + weigh (N K) (at P239) (passenger c) + weigh (N K) (at P247) (passenger c)
        + (case pilot c of PL_unlock k \<Rightarrow> 1 | _ \<Rightarrow> 0) = 1)"

text \<open>
  The counters and the gates of the check-in, in terms of the passengers' progress and of
  the hostess's count \<open>nPassengers\<close>.
\<close>

definition inv_counters :: "prob_const \<Rightarrow> config \<Rightarrow> bool" where
  "inv_counters K c =
     (totalPassBoarded (fSt c) = nPassengers c + hin {H290} (hostess c)
      \<and> nPassInQueue (fSt c)
          = weigh (N K) (past P162) (passenger c) - totalPassBoarded (fSt c)
      \<and> nPassInFlight (fSt c)
          = totalPassBoarded (fSt c) - weigh (N K) (past P239) (passenger c)
      \<and> int (semval c passengersInQueue) + nPassengers c
           + hin {H230, H237, H248, H255, H261, H290} (hostess c)
          = weigh (N K) (past P176) (passenger c)
      \<and> int (semval c passengersWaitInQueue) + weigh (N K) (past P184) (passenger c)
          = nPassengers c + hin {H237, H248, H255, H261, H290} (hostess c)
      \<and> int (semval c idShown) + nPassengers c + hin {H261, H290} (hostess c)
          = weigh (N K) (past P224) (passenger c))"

definition inv_passengers :: "prob_const \<Rightarrow> config \<Rightarrow> bool" where
  "inv_passengers K c =
     (\<forall>i<N K. pos (passenger c i) \<le> 11
         \<and> passengerStat (fSt c) i = stat_of (passenger c i))"

definition inv_hostess :: "prob_const \<Rightarrow> config \<Rightarrow> bool" where
  "inv_hostess K c =
     ((hostess c \<in> {H154, H164, H171, H188, H198, H205, H230, H237, H248, H255, H261, H290}
         \<longrightarrow> 0 \<le> nPassengers c \<and> nPassengers c < int (N K))
      \<and> (hostess c \<in> {H321, H340, H347}
         \<longrightarrow> 1 \<le> nPassengers c \<and> nPassengers c \<le> int (N K))
      \<and> (hostess c = H_return \<longrightarrow> nPassengers c = int (N K))
      \<and> (\<forall>msg. hostess c \<noteq> H_exit_failure msg)
      \<and> (hostess c = H290 \<and> \<not> last_checkPassport c \<longrightarrow> nPassengers c + 1 \<noteq> int (N K))
      \<and> totalPassBoarded (fSt c) = nPassengers c + hin {H290} (hostess c)
      \<and> (finished (fSt c) \<longleftrightarrow>
            hostess c \<in> {H340, H347, H_return} \<and> totalPassBoarded (fSt c) = int (N K)
            \<and> 0 < N K))"

text \<open>
  The flight cycle. Exactly one of these holds: the pilot is busy (anywhere but blocked on
  \<open>readyToFlight\<close>), \<open>readyForBoarding\<close> is signalled, the hostess is boarding, or
  \<open>readyToFlight\<close> is signalled. The pilot's program counter then fixes how many
  passengers are still to be released and to disembark.
\<close>

definition boarding :: "hostess_pc set" where
  "boarding = {H188, H198, H205, H230, H237, H248, H255, H261, H290, H321, H340, H347}"

definition seated :: "hostess_pc set" where
  "seated = {H290, H321, H340, H347}"

definition grounded :: "prob_const \<Rightarrow> config \<Rightarrow> bool" where
  "grounded K c =
     (semval c passengersWaitInFlight = 0 \<and> semval c planeEmpty = 0
      \<and> weigh (N K) (at P227) (passenger c) = 0 \<and> weigh (N K) (at P239) (passenger c) = 0)"

definition inv_flight :: "prob_const \<Rightarrow> config \<Rightarrow> bool" where
  "inv_flight K c =
     (int (semval c readyForBoarding) + int (semval c readyToFlight)
        + hin boarding (hostess c)
        + (case pilot c of PL_wait_ready \<Rightarrow> 0 | PL_exit_failure \<Rightarrow> 2 | _ \<Rightarrow> 1) = 1
      \<and> 0 \<le> nPassInFlight (fSt c)
      \<and> hin seated (hostess c) \<le> nPassInFlight (fSt c)
      \<and> (case pilot c of
          PL_signal_boarding \<Rightarrow> grounded K c \<and> nPassInFlight (fSt c) = 0
        | PL_wait_ready \<Rightarrow> grounded K c
             \<and> (0 < semval c readyForBoarding \<longrightarrow> nPassInFlight (fSt c) = 0)
             \<and> int (semval c readyToFlight) \<le> nPassInFlight (fSt c)
        | PL_lock \<Rightarrow> grounded K c \<and> 1 \<le> nPassInFlight (fSt c)
        | PL_unlock k \<Rightarrow>
             grounded K c \<and> 1 \<le> nPassInFlight (fSt c) \<and> k = nPassInFlight (fSt c)
        | PL_drop k \<Rightarrow> 1 \<le> k \<and> semval c planeEmpty = 0
             \<and> weigh (N K) (at P239) (passenger c) = 0
             \<and> k + int (semval c passengersWaitInFlight)
                  + weigh (N K) (at P227) (passenger c)
                 = nPassInFlight (fSt c)
        | PL_wait_empty \<Rightarrow>
             int (semval c passengersWaitInFlight) + weigh (N K) (at P227) (passenger c)
                 = nPassInFlight (fSt c)
             \<and> int (semval c planeEmpty) + weigh (N K) (at P239) (passenger c)
                 = (if nPassInFlight (fSt c) = 0 then 1 else 0)
        | PL_exit_failure \<Rightarrow> False))"

definition inv :: "prob_const \<Rightarrow> config \<Rightarrow> bool" where
  "inv K c = (inv_mutex K c \<and> inv_counters K c \<and> inv_passengers K c
     \<and> inv_hostess K c \<and> inv_flight K c)"

subsection \<open>The end of a run, its length, and the events counted along it\<close>

text \<open>No actor can move: the hostess, the pilot and every passenger are blocked or done.\<close>

definition quiescent :: "prob_const \<Rightarrow> config \<Rightarrow> bool" where
  "quiescent K c =
     (hostess_step K Success c = None \<and> pilot_step Success c = None
      \<and> (\<forall>i<N K. passenger_step i Success c = None))"

text \<open>
  The number of steps each process still has before it, counted generously: a passenger
  from its program counter (one more while it has not been released from the plane, for
  the pilot's step that releases it), the hostess within a check-in and within a flight,
  the pilot within a flight cycle. \<open>potential\<close> adds them up, with 16 steps of the hostess
  for each check-in to come and 6 steps of the pilot for each flight that may still
  depart.
\<close>

fun prem :: "passenger_pc \<Rightarrow> int" where
  "prem P151 = 12" | "prem P162 = 11" | "prem P169 = 10" | "prem P176 = 9" | "prem P184 = 8"
| "prem P196 = 7" | "prem P203 = 6" | "prem P224 = 5" | "prem P227 = 3" | "prem P239 = 2"
| "prem P247 = 1" | "prem P_return = 0" | "prem (P_exit_failure msg) = 0"

fun hrem :: "hostess_pc \<Rightarrow> int" where
  "hrem H154 = 12" | "hrem H164 = 11" | "hrem H171 = 10"
| "hrem H188 = 9" | "hrem H198 = 8" | "hrem H205 = 7"
| "hrem H230 = 6" | "hrem H237 = 5" | "hrem H248 = 4" | "hrem H255 = 3" | "hrem H261 = 2" | "hrem H290 = 1"
| "hrem H321 = 15" | "hrem H340 = 14" | "hrem H347 = 13"
| "hrem H_return = 0" | "hrem (H_exit_failure msg) = 0"

fun plrem :: "pilot_pc \<Rightarrow> int" where
  "plrem PL_wait_ready = 0" | "plrem PL_signal_boarding = 1" | "plrem PL_wait_empty = 2"
| "plrem (PL_drop k) = 3" | "plrem (PL_unlock k) = 4" | "plrem PL_lock = 5" | "plrem PL_exit_failure = 0"

definition potential :: "prob_const \<Rightarrow> config \<Rightarrow> int" where
  "potential K c =
     weigh (N K) prem (passenger c) - int (semval c passengersWaitInFlight)
     + 16 * (int (N K) - nPassengers c) + hrem (hostess c)
     + 6 * (int (N K) - nPassengers c + hin {H321, H340, H347} (hostess c)
            + int (semval c readyToFlight))
     + plrem (pilot c)"

text \<open>
  \<open>tally K p as c\<close> counts the steps of the run of \<open>as\<close> from \<open>c\<close> that satisfy \<open>p\<close>, a
  predicate of the actor and of the configuration in which it moves:
  \<open>signals_planeEmpty\<close> for a passenger performing the \<^verbatim>\<open>semUp\<close> of line 239, \<open>takes_off\<close>
  for the pilot receiving \<open>readyToFlight\<close>. \<open>awaiting_planeEmpty\<close> is 1 while a flight has
  departed and \<open>planeEmpty\<close> has not yet been signalled for it.
\<close>

fun tally :: "prob_const \<Rightarrow> (actor \<Rightarrow> config \<Rightarrow> bool) \<Rightarrow> actor list \<Rightarrow> config \<Rightarrow> nat" where
  "tally K p [] c = 0"
| "tally K p (a # as) c =
     (case step K a Success c of
        None \<Rightarrow> 0
      | Some c' \<Rightarrow> (if p a c then 1 else 0) + tally K p as c')"

definition signals_planeEmpty :: "actor \<Rightarrow> config \<Rightarrow> bool" where
  "signals_planeEmpty a c = (case a of Passenger i \<Rightarrow> passenger c i = P239 | _ \<Rightarrow> False)"

definition takes_off :: "actor \<Rightarrow> config \<Rightarrow> bool" where
  "takes_off a c = (case a of Pilot \<Rightarrow> pilot c = PL_wait_ready | _ \<Rightarrow> False)"

definition awaiting_planeEmpty :: "config \<Rightarrow> nat" where
  "awaiting_planeEmpty c =
     (case pilot c of
        PL_signal_boarding \<Rightarrow> 0
      | PL_wait_ready \<Rightarrow> 0
      | PL_exit_failure \<Rightarrow> 0
      | _ \<Rightarrow> if semval c planeEmpty = 0 then 1 else 0)"

text \<open>
  The configurations a run goes through, and the history of the status of passenger \<open>i\<close>
  along it: the statuses in the order in which they appear, each run of equal statuses
  contracted to one entry.
\<close>

fun trace :: "prob_const \<Rightarrow> actor list \<Rightarrow> config \<Rightarrow> config list" where
  "trace K [] c = [c]"
| "trace K (a # as) c =
     c # (case step K a Success c of None \<Rightarrow> [] | Some c' \<Rightarrow> trace K as c')"

definition stat_history :: "prob_const \<Rightarrow> actor list \<Rightarrow> nat \<Rightarrow> passenger_stat list" where
  "stat_history K as i =
     remdups_adj (map (\<lambda>c. passengerStat (fSt c) i) (trace K as (init K)))"

text \<open>The status of a given rank.\<close>

fun stat_of_rank :: "nat \<Rightarrow> passenger_stat" where
  "stat_of_rank 0 = UNSTARTED"
| "stat_of_rank (Suc 0) = IN_QUEUE"
| "stat_of_rank (Suc (Suc 0)) = IN_FLIGHT"
| "stat_of_rank (Suc (Suc (Suc n))) = AT_DESTINATION"

section \<open>Verification\<close>

lemmas model_defs = step_def hostess_step_def passenger_step_def pilot_step_def
  semDown_def semUp_def or_exit_HT_def or_exit_PG_def or_exit_PL_def goto_def
  main_do_while_def main_while_def

lemmas body_defs = checkPassport_update_def checkPassport_last_def
  signalReadyToFlight_update_def waitInQueue_enqueue_def waitInQueue_showId_def
  waitUntilDestination_leave_def get_nPassengersInFlight_def get_nPassengersInQueue_def
  Let_def

lemmas example_defs = after_def move_def init_def K1_def sched_enqueue_def
  sched_to_H261_def sched_to_H321_def sched_to_P227_def sched_to_P239_def sched_full_def

subsection \<open>The check-in and the departure decision\<close>

text \<open>
  C1. The step of the hostess at line 261 takes the mutex, updates the counters and sets
  \<^verbatim>\<open>last\<close>; with the counters just updated, \<^verbatim>\<open>last\<close> is true exactly when
  \<open>nPassInFlight = MAXFC\<close>, or \<open>nPassInFlight \<ge> MINFC\<close> and \<open>nPassInQueue = 0\<close>, or
  \<open>totalPassBoarded = N\<close>. The next step releases the mutex and returns \<^verbatim>\<open>last\<close>: when it
  is false the hostess is back at \<^verbatim>\<open>waitForPassenger\<close> (line 188) for another check-in,
  when it is true she goes on to \<^verbatim>\<open>signalReadyToFlight\<close> (line 321).
\<close>

theorem checkPassport_decision:
  assumes "hostess c = H261" and "step K Hostess Success c = Some c'"
  shows "0 < semval c mutex \<and> semval c' mutex = semval c mutex - 1
       \<and> fSt c' = checkPassport_update (fSt c)
       \<and> hostess c' = H290
       \<and> last_checkPassport c' =
           (nPassInFlight (fSt c') = MAXFC K
            \<or> (MINFC K \<le> nPassInFlight (fSt c') \<and> nPassInQueue (fSt c') = 0)
            \<or> totalPassBoarded (fSt c') = int (N K))
       \<and> (\<exists>c''. step K Hostess Success c' = Some c''
              \<and> lastPassengerInFlight c'' = last_checkPassport c'
              \<and> fSt c'' = fSt c'
              \<and> semval c'' mutex = semval c' mutex + 1
              \<and> hostess c'' = (if last_checkPassport c' then H321 else H188))"
  using assms
  by (auto simp: model_defs body_defs split: if_splits)

theorem checkPassport_decision_witness:
  "hostess (after K1 sched_to_H261) = H261
   \<and> step K1 Hostess Success (after K1 sched_to_H261)
       = Some (move K1 Hostess (after K1 sched_to_H261))
   \<and> last_checkPassport (move K1 Hostess (after K1 sched_to_H261))
   \<and> totalPassBoarded (fSt (move K1 Hostess (after K1 sched_to_H261))) = int (N K1)"
proof -
  have h1: "hostess (after K1 sched_to_H261) = H261"
    by (simp add: example_defs model_defs body_defs)
  have h2: "step K1 Hostess Success (after K1 sched_to_H261)
              = Some (move K1 Hostess (after K1 sched_to_H261))"
    by (simp add: example_defs model_defs body_defs)
  have h3: "totalPassBoarded (fSt (move K1 Hostess (after K1 sched_to_H261))) = int (N K1)"
    by (simp add: example_defs model_defs body_defs)
  from checkPassport_decision [OF h1 h2] h3
  have "last_checkPassport (move K1 Hostess (after K1 sched_to_H261))"
    by blast
  with h1 h2 h3 show ?thesis by blast
qed

text \<open>
  C7. A check-in changes the counters in the step at line 261 only, inside the critical
  region entered there: that step takes the mutex, decreases \<open>nPassInQueue\<close> by one,
  increases \<open>nPassInFlight\<close> and \<open>totalPassBoarded\<close> by one, and leaves every other field
  of the shared region as it is. No other step of the hostess changes the three counters.
\<close>

theorem checkin_counters:
  assumes "step K Hostess Success c = Some c'"
  shows "if hostess c = H261
         then 0 < semval c mutex \<and> semval c' mutex = semval c mutex - 1
            \<and> fSt c' = (fSt c)\<lparr>nPassInQueue := nPassInQueue (fSt c) - 1,
                  nPassInFlight := nPassInFlight (fSt c) + 1,
                  totalPassBoarded := totalPassBoarded (fSt c) + 1\<rparr>
         else nPassInQueue (fSt c') = nPassInQueue (fSt c)
            \<and> nPassInFlight (fSt c') = nPassInFlight (fSt c)
            \<and> totalPassBoarded (fSt c') = totalPassBoarded (fSt c)"
  using assms
  by (auto simp: model_defs body_defs split: if_splits hostess_pc.splits)

theorem checkin_counters_witness:
  "step K1 Hostess Success (after K1 sched_to_H261)
       = Some (move K1 Hostess (after K1 sched_to_H261))
   \<and> hostess (after K1 sched_to_H261) = H261
   \<and> nPassInQueue (fSt (after K1 sched_to_H261)) = 1
   \<and> nPassInQueue (fSt (move K1 Hostess (after K1 sched_to_H261))) = 0
   \<and> nPassInFlight (fSt (move K1 Hostess (after K1 sched_to_H261))) = 1
   \<and> totalPassBoarded (fSt (move K1 Hostess (after K1 sched_to_H261))) = 1"
proof -
  have h1: "hostess (after K1 sched_to_H261) = H261"
    by (simp add: example_defs model_defs body_defs)
  have h2: "step K1 Hostess Success (after K1 sched_to_H261)
              = Some (move K1 Hostess (after K1 sched_to_H261))"
    by (simp add: example_defs model_defs body_defs)
  have h3: "nPassInQueue (fSt (after K1 sched_to_H261)) = 1
      \<and> nPassInFlight (fSt (after K1 sched_to_H261)) = 0
      \<and> totalPassBoarded (fSt (after K1 sched_to_H261)) = 0"
    by (simp add: example_defs model_defs body_defs)
  from checkin_counters [OF h2] h1
  have "fSt (move K1 Hostess (after K1 sched_to_H261))
          = (fSt (after K1 sched_to_H261))
              \<lparr>nPassInQueue := nPassInQueue (fSt (after K1 sched_to_H261)) - 1,
               nPassInFlight := nPassInFlight (fSt (after K1 sched_to_H261)) + 1,
               totalPassBoarded := totalPassBoarded (fSt (after K1 sched_to_H261)) + 1\<rparr>"
    by simp
  with h1 h2 h3 show ?thesis by simp
qed

subsection \<open>The departure of a flight\<close>

text \<open>
  C5, as the code has it. The step of the hostess at line 321 takes the mutex, sets her
  status to \<open>READY_TO_FLIGHT\<close>, stores the current \<open>nPassInFlight\<close> into
  \<open>nPassengersInFlight\<close> at index \<open>nFlight - 1\<close>, and sets \<open>finished\<close> when
  \<open>totalPassBoarded = N\<close>; it does not touch \<open>readyToFlight\<close>. Her next step releases the
  mutex, and only the step after that signals \<open>readyToFlight\<close>.
\<close>

theorem signalReadyToFlight_steps:
  assumes "hostess c = H321" and "step K Hostess Success c = Some c1"
  shows "0 < semval c mutex \<and> semval c1 mutex = semval c mutex - 1
       \<and> semval c1 readyToFlight = semval c readyToFlight
       \<and> fSt c1 = (fSt c)
           \<lparr>hostessStat := READY_TO_FLIGHT,
            nPassengersInFlight :=
              (nPassengersInFlight (fSt c))(nFlight (fSt c) - 1 := nPassInFlight (fSt c)),
            finished := (finished (fSt c) \<or> totalPassBoarded (fSt c) = int (N K))\<rparr>
       \<and> (\<exists>c2 c3. step K Hostess Success c1 = Some c2
              \<and> fSt c2 = fSt c1
              \<and> semval c2 mutex = semval c1 mutex + 1
              \<and> semval c2 readyToFlight = semval c1 readyToFlight
              \<and> step K Hostess Success c2 = Some c3
              \<and> fSt c3 = fSt c1
              \<and> semval c3 mutex = semval c2 mutex
              \<and> semval c3 readyToFlight = semval c2 readyToFlight + 1)"
  using assms
  by (auto simp: model_defs body_defs split: if_splits)

theorem signalReadyToFlight_steps_witness:
  "hostess flight_one = H321
   \<and> step K1 Hostess Success flight_one = Some (move K1 Hostess flight_one)
   \<and> nFlight (fSt flight_one) = 1
   \<and> nPassInFlight (fSt flight_one) = 1
   \<and> nPassengersInFlight (fSt (move K1 Hostess flight_one)) 0 = 1
   \<and> finished (fSt (move K1 Hostess flight_one))"
proof -
  have h1: "hostess flight_one = H321"
    by (simp add: flight_one_def example_defs model_defs body_defs)
  have h2: "step K1 Hostess Success flight_one = Some (move K1 Hostess flight_one)"
    by (simp add: flight_one_def example_defs model_defs body_defs)
  have h3: "nFlight (fSt flight_one) = 1 \<and> nPassInFlight (fSt flight_one) = 1
      \<and> totalPassBoarded (fSt flight_one) = int (N K1)"
    by (simp add: flight_one_def example_defs model_defs body_defs)
  from signalReadyToFlight_steps [OF h1 h2]
  have "fSt (move K1 Hostess flight_one) = (fSt flight_one)
           \<lparr>hostessStat := READY_TO_FLIGHT,
            nPassengersInFlight :=
              (nPassengersInFlight (fSt flight_one))
                (nFlight (fSt flight_one) - 1 := nPassInFlight (fSt flight_one)),
            finished := (finished (fSt flight_one)
               \<or> totalPassBoarded (fSt flight_one) = int (N K1))\<rparr>"
    by blast
  with h1 h2 h3 show ?thesis by simp
qed

text \<open>
  C5 as stated fails: with \<open>nFlight = 1\<close> and one passenger aboard, the entry of
  \<open>nPassengersInFlight\<close> at index \<open>nFlight\<close> is not the headcount after the step; the
  entry at index \<open>nFlight - 1\<close> is.
\<close>

theorem headcount_index_counterexample:
  "hostess flight_one = H321
   \<and> step K1 Hostess Success flight_one = Some (move K1 Hostess flight_one)
   \<and> nFlight (fSt flight_one) = 1
   \<and> nPassInFlight (fSt flight_one) = 1
   \<and> nPassengersInFlight (fSt (move K1 Hostess flight_one)) (nFlight (fSt flight_one))
        \<noteq> nPassInFlight (fSt flight_one)
   \<and> nPassengersInFlight (fSt (move K1 Hostess flight_one)) (nFlight (fSt flight_one) - 1)
        = nPassInFlight (fSt flight_one)"
  by (simp add: flight_one_def example_defs model_defs body_defs)

subsection \<open>Failing gate operations\<close>

text \<open>
  Every gate operation of the hostess is tested: when it fails she ends in
  \<open>H_exit_failure\<close>, with the message of the operation's kind.
\<close>

lemma hostess_failure_is_fatal:
  assumes "hostess c \<noteq> H_return" and "\<forall>msg. hostess c \<noteq> H_exit_failure msg"
  shows "\<exists>msg \<in> {down_HT, up_HT}.
           hostess_step K Failure c = Some (c\<lparr>hostess := H_exit_failure msg\<rparr>)"
  using assms
  by (cases "hostess c") (simp_all add: hostess_step_def semDown_def semUp_def or_exit_HT_def)

text \<open>So is every gate operation of a passenger, except the one at line 224.\<close>

lemma passenger_failure_is_fatal:
  assumes "passenger c i \<noteq> P224" and "passenger c i \<noteq> P_return"
    and "\<forall>msg. passenger c i \<noteq> P_exit_failure msg"
  shows "\<exists>msg \<in> {down_PG, up_PG}.
           passenger_step i Failure c = Some (goto i (P_exit_failure msg) c)"
  using assms
  by (cases "passenger c i")
     (simp_all add: passenger_step_def semDown_def semUp_def or_exit_PG_def)

text \<open>
  C3 fails at line 224 of the passenger: the value returned by
  \<^verbatim>\<open>semDown (semgid, sh->passengersWaitInFlight)\<close> is dropped. When that operation fails,
  the passenger neither logs nor exits: it goes on to line 227, and its next steps take
  the mutex, set its status to \<open>AT_DESTINATION\<close> and decrement \<open>nPassInFlight\<close>, here while
  the hostess is still inside the check-in.
\<close>

theorem passenger_ignores_failure:
  "passenger (after K1 sched_to_H261) 0 = P224
   \<and> step K1 (Passenger 0) Failure (after K1 sched_to_H261)
        = Some (goto 0 P227 (after K1 sched_to_H261))
   \<and> passenger (goto 0 P227 (after K1 sched_to_H261)) 0 = P227
   \<and> nPassInFlight (fSt (goto 0 P227 (after K1 sched_to_H261))) = 0
   \<and> nPassInFlight (fSt (move K1 (Passenger 0) (goto 0 P227 (after K1 sched_to_H261)))) = - 1
   \<and> passengerStat (fSt (move K1 (Passenger 0) (goto 0 P227 (after K1 sched_to_H261)))) 0
        = AT_DESTINATION"
  by (simp add: example_defs model_defs body_defs)

subsection \<open>The identity handed over\<close>

lemma hostess_step_passengerChecked:
  "hostess_step K r (set_passengerChecked v c)
     = map_option (set_passengerChecked v) (hostess_step K r c)"
  by (cases r; cases "hostess c")
     (auto simp: set_passengerChecked_def model_defs body_defs)

text \<open>
  C10. Whatever the outcomes of her gate operations, the hostess started with the value
  \<open>v\<close> in \<open>passengerChecked\<close> is blocked exactly when she is blocked with the value that
  was there, and otherwise ends in the same configuration but for \<open>passengerChecked\<close>,
  which she leaves as she found it: counters, \<^verbatim>\<open>last\<close>, recorded headcounts, semaphores
  and program counter do not depend on the identity handed over.
\<close>

theorem passengerChecked_irrelevant:
  "hostess_run K rs (set_passengerChecked v c)
     = map_option (set_passengerChecked v) (hostess_run K rs c)"
proof (induction rs arbitrary: c)
  case Nil
  show ?case by simp
next
  case (Cons r rs)
  show ?case
  proof (cases "hostess_step K r c")
    case None
    then show ?thesis by (simp add: hostess_step_passengerChecked)
  next
    case (Some c')
    then show ?thesis by (simp add: hostess_step_passengerChecked Cons.IH)
  qed
qed

theorem passengerChecked_irrelevant_witness:
  "hostess_run K1 [Success, Success, Failure] (set_passengerChecked 7 (after K1 sched_to_H261))
     = map_option (set_passengerChecked 7)
         (hostess_run K1 [Success, Success, Failure] (after K1 sched_to_H261))"
  by (rule passengerChecked_irrelevant)

subsection \<open>The invariants hold in every run\<close>

lemmas hsem = semDown_def semUp_def or_exit_HT_def main_do_while_def main_while_def Let_def

lemmas hbody = checkPassport_update_def signalReadyToFlight_update_def Let_def

lemmas psem = semDown_def semUp_def or_exit_PG_def Let_def

lemmas pbody = goto_def waitInQueue_enqueue_def waitInQueue_showId_def
  waitUntilDestination_leave_def Let_def

lemmas plsem = semDown_def semUp_def or_exit_PL_def

lemma weigh_upd [simp]:
  assumes "i < n"
  shows "weigh n g (ps(i := p)) = weigh n g ps - g (ps i) + g p"
proof -
  have "weigh n g (ps(i := p)) = (\<Sum>j\<in>{..<n}. if j = i then g p else g (ps j))"
    unfolding weigh_def by (rule sum.cong) auto
  also have "\<dots> = (\<Sum>j\<in>{..<n} - {i}. g (ps j)) + g p"
    using assms by (simp add: sum.If_cases Diff_eq Int_absorb1)
  also have "(\<Sum>j\<in>{..<n} - {i}. g (ps j)) = weigh n g ps - g (ps i)"
    unfolding weigh_def using assms by (simp add: sum_diff1)
  finally show ?thesis .
qed

lemma hin_range: "0 \<le> hin S h" "hin S h \<le> 1"
  by (simp_all add: hin_def)

lemma hin_seated_boarding: "hin seated h \<le> hin boarding h"
  by (auto simp: hin_def seated_def boarding_def)

lemma weigh_nonneg: "(\<And>p. 0 \<le> g p) \<Longrightarrow> 0 \<le> weigh n g ps"
  by (simp add: weigh_def sum_nonneg)

lemma weigh_at_nonneg: "0 \<le> weigh n (at p) ps"
  by (rule weigh_nonneg) (simp add: at_def)

lemma weigh_at_pos:
  assumes "i < n" and "ps i = p"
  shows "1 \<le> weigh n (at p) ps"
proof -
  have "at p (ps i) \<le> (\<Sum>j\<in>{..<n}. at p (ps j))"
    by (rule member_le_sum) (use assms in \<open>auto simp: at_def\<close>)
  then show ?thesis using assms by (simp add: weigh_def at_def)
qed

lemma mutex_hostess:
  "inv_mutex K c \<Longrightarrow> hostess_step K Success c = Some c' \<Longrightarrow> inv_mutex K c'"
  unfolding hostess_step_def
  by (cases "hostess c"; clarsimp simp: hsem split: if_splits;
      simp add: inv_mutex_def hin_def)

lemma mutex_pilot:
  "inv_mutex K c \<Longrightarrow> pilot_step Success c = Some c' \<Longrightarrow> inv_mutex K c'"
  unfolding pilot_step_def
  by (cases "pilot c"; clarsimp simp: plsem split: if_splits;
      simp add: inv_mutex_def)

lemma mutex_passenger:
  "inv_mutex K c \<Longrightarrow> i < N K \<Longrightarrow> passenger_step i Success c = Some c'
   \<Longrightarrow> inv_mutex K c'"
  unfolding passenger_step_def
  by (cases "passenger c i"; clarsimp simp: psem split: if_splits;
      simp add: inv_mutex_def pbody at_def)

lemma counters_hostess:
  "inv_counters K c \<Longrightarrow> hostess_step K Success c = Some c' \<Longrightarrow> inv_counters K c'"
  unfolding hostess_step_def
  by (cases "hostess c"; clarsimp simp: hsem split: if_splits;
      simp add: inv_counters_def hin_def hbody)

lemma counters_pilot:
  "inv_counters K c \<Longrightarrow> pilot_step Success c = Some c' \<Longrightarrow> inv_counters K c'"
  unfolding pilot_step_def
  by (cases "pilot c"; clarsimp simp: plsem split: if_splits;
      simp add: inv_counters_def)

lemma counters_passenger:
  "inv_counters K c \<Longrightarrow> i < N K \<Longrightarrow> passenger_step i Success c = Some c'
   \<Longrightarrow> inv_counters K c'"
  unfolding passenger_step_def
  by (cases "passenger c i"; clarsimp simp: psem split: if_splits;
      simp add: inv_counters_def pbody past_def)

lemma passengers_hostess:
  "inv_passengers K c \<Longrightarrow> hostess_step K Success c = Some c' \<Longrightarrow> inv_passengers K c'"
  unfolding hostess_step_def
  by (cases "hostess c"; clarsimp simp: hsem split: if_splits;
      simp add: inv_passengers_def hbody)

lemma passengers_pilot:
  "inv_passengers K c \<Longrightarrow> pilot_step Success c = Some c' \<Longrightarrow> inv_passengers K c'"
  unfolding pilot_step_def
  by (cases "pilot c"; clarsimp simp: plsem split: if_splits;
      simp add: inv_passengers_def)

lemma passengers_passenger:
  "inv_passengers K c \<Longrightarrow> i < N K \<Longrightarrow> passenger_step i Success c = Some c'
   \<Longrightarrow> inv_passengers K c'"
  unfolding passenger_step_def
  by (cases "passenger c i"; clarsimp simp: psem split: if_splits;
      simp add: inv_passengers_def pbody)

lemma checkPassport_last_False:
  "\<not> checkPassport_last K s \<Longrightarrow> totalPassBoarded s \<noteq> int (N K)"
  by (simp add: checkPassport_last_def split: if_splits)

lemma hostess_hostess:
  "inv_hostess K c \<Longrightarrow> hostess_step K Success c = Some c' \<Longrightarrow> inv_hostess K c'"
  unfolding hostess_step_def
  by (cases "hostess c"; clarsimp simp: hsem split: if_splits;
      simp add: inv_hostess_def hin_def hbody;
      (auto dest: checkPassport_last_False simp: hbody)?)

lemma inv_hostess_same:
  "inv_hostess K c \<Longrightarrow> hostess c' = hostess c \<Longrightarrow> nPassengers c' = nPassengers c
   \<Longrightarrow> last_checkPassport c' = last_checkPassport c
   \<Longrightarrow> totalPassBoarded (fSt c') = totalPassBoarded (fSt c)
   \<Longrightarrow> finished (fSt c') = finished (fSt c) \<Longrightarrow> inv_hostess K c'"
  by (simp add: inv_hostess_def)

lemma hostess_pilot:
  "inv_hostess K c \<Longrightarrow> pilot_step Success c = Some c' \<Longrightarrow> inv_hostess K c'"
  unfolding pilot_step_def
  by (cases "pilot c"; clarsimp simp: plsem split: if_splits;
      erule inv_hostess_same; simp)

lemma hostess_passenger:
  "inv_hostess K c \<Longrightarrow> i < N K \<Longrightarrow> passenger_step i Success c = Some c'
   \<Longrightarrow> inv_hostess K c'"
  unfolding passenger_step_def
  by (cases "passenger c i"; clarsimp simp: psem split: if_splits;
      erule inv_hostess_same; simp add: pbody)

lemma flight_pilot:
  assumes "inv_flight K c" and "pilot_step Success c = Some c'"
  shows "inv_flight K c'"
proof -
  note facts = hin_range [of boarding "hostess c"] hin_range [of seated "hostess c"]
    weigh_at_nonneg [of "N K" P227 "passenger c"]
    weigh_at_nonneg [of "N K" P239 "passenger c"]
  show ?thesis
    using assms facts unfolding pilot_step_def
    by (cases "pilot c"; clarsimp simp: plsem split: if_splits;
        auto simp add: inv_flight_def grounded_def split: if_splits)
qed

lemma flight_hostess:
  assumes "inv_flight K c" and "hostess_step K Success c = Some c'"
  shows "inv_flight K c'"
proof -
  note facts = weigh_at_nonneg [of "N K" P227 "passenger c"]
    weigh_at_nonneg [of "N K" P239 "passenger c"]
  show ?thesis
    using assms facts unfolding hostess_step_def
    by (cases "hostess c"; clarsimp simp: hsem split: if_splits;
        cases "pilot c";
        simp add: inv_flight_def grounded_def hin_def boarding_def seated_def hbody)
qed

lemma flight_passenger:
  assumes "inv_flight K c" and "i < N K" and "passenger_step i Success c = Some c'"
  shows "inv_flight K c'"
proof -
  note facts = hin_range [of boarding "hostess c"] hin_range [of seated "hostess c"]
    hin_seated_boarding [of "hostess c"]
    weigh_at_nonneg [of "N K" P227 "passenger c"]
    weigh_at_nonneg [of "N K" P239 "passenger c"]
    weigh_at_pos [of i "N K" "passenger c" P227]
    weigh_at_pos [of i "N K" "passenger c" P239]
  show ?thesis
    using assms facts unfolding passenger_step_def
    by (cases "passenger c i"; clarsimp simp: psem split: if_splits;
        cases "pilot c";
        simp add: inv_flight_def grounded_def pbody at_def)
qed

lemma inv_init: "inv K (init K)"
  by (simp add: inv_def inv_mutex_def inv_counters_def inv_passengers_def inv_hostess_def
        inv_flight_def grounded_def init_def main_while_def hin_def boarding_def seated_def
        weigh_def at_def past_def)

lemma inv_step:
  assumes "inv K c" and "step K a Success c = Some c'"
  shows "inv K c'"
proof (cases a)
  case Hostess
  with assms show ?thesis
    by (auto simp: inv_def step_def
          intro: mutex_hostess counters_hostess passengers_hostess hostess_hostess
            flight_hostess)
next
  case (Passenger i)
  with assms have "i < N K" and "passenger_step i Success c = Some c'"
    by (simp_all add: step_def split: if_splits)
  with assms(1) show ?thesis
    by (auto simp: inv_def
          intro: mutex_passenger counters_passenger passengers_passenger hostess_passenger
            flight_passenger)
next
  case Pilot
  with assms show ?thesis
    by (auto simp: inv_def step_def
          intro: mutex_pilot counters_pilot passengers_pilot hostess_pilot flight_pilot)
qed

lemma inv_run: "inv K c \<Longrightarrow> run K as c = Some c' \<Longrightarrow> inv K c'"
proof (induction as arbitrary: c)
  case Nil
  then show ?case by simp
next
  case (Cons a as)
  then show ?case
    by (cases "step K a Success c") (auto dest: inv_step)
qed

lemma inv_reached: "run K as (init K) = Some c \<Longrightarrow> inv K c"
  by (rule inv_run [OF inv_init])

lemma run_append:
  "run K (as @ bs) c = (case run K as c of None \<Rightarrow> None | Some c' \<Rightarrow> run K bs c')"
  by (induction as arbitrary: c) (auto split: option.splits)

lemma run_sched_enqueue: "run K1 sched_enqueue (init K1) = Some (after K1 sched_enqueue)"
  by (simp add: example_defs model_defs body_defs)

lemma run_sched_to_H321: "run K1 sched_to_H321 (init K1) = Some (after K1 sched_to_H321)"
  by (simp add: example_defs model_defs body_defs)

lemma run_sched_to_P227: "run K1 sched_to_P227 (init K1) = Some (after K1 sched_to_P227)"
  by (simp add: example_defs model_defs body_defs)

lemma run_sched_to_P239: "run K1 sched_to_P239 (init K1) = Some (after K1 sched_to_P239)"
  by (simp add: example_defs model_defs body_defs)

lemma run_sched_full: "run K1 sched_full (init K1) = Some (after K1 sched_full)"
  by (simp add: example_defs model_defs body_defs)

subsection \<open>Conservation of passengers\<close>

lemma count_stat_weigh:
  assumes "inv_passengers K c"
  shows "count_stat (N K) AT_DESTINATION (passengerStat (fSt c)) = weigh (N K) (past P239) (passenger c)"
    and "count_stat (N K) UNSTARTED (passengerStat (fSt c)) = int (N K) - weigh (N K) (past P162) (passenger c)"
proof -
  have *: "\<And>p. pos p \<le> 11 \<Longrightarrow> (if stat_of p = AT_DESTINATION then 1 else 0) = past P239 p"
    "\<And>p. pos p \<le> 11 \<Longrightarrow> (if stat_of p = UNSTARTED then 1 else 0) = 1 - past P162 p"
    subgoal for p by (cases p) (simp_all add: past_def)
    subgoal for p by (cases p) (simp_all add: past_def)
    done
  show "count_stat (N K) AT_DESTINATION (passengerStat (fSt c)) = weigh (N K) (past P239) (passenger c)"
    unfolding count_stat_def weigh_def
    by (rule sum.cong) (use assms * in \<open>auto simp: inv_passengers_def\<close>)
  have "count_stat (N K) UNSTARTED (passengerStat (fSt c)) = (\<Sum>i<N K. 1 - past P162 (passenger c i))"
    unfolding count_stat_def 
    by (rule sum.cong) (use assms * in \<open>auto simp: inv_passengers_def\<close>)
  then show "count_stat (N K) UNSTARTED (passengerStat (fSt c)) = int (N K) - weigh (N K) (past P162) (passenger c)"
    by (simp add: weigh_def sum_subtractf)
qed

lemma step_total_mono:
  "step K a Success c = Some c' \<Longrightarrow> totalPassBoarded (fSt c) \<le> totalPassBoarded (fSt c')"
  by (cases a)
     (auto simp: step_def hostess_step_def passenger_step_def pilot_step_def hsem hbody psem pbody plsem
        split: hostess_pc.splits passenger_pc.splits pilot_pc.splits if_splits)

lemma run_total_mono:
  "run K as c = Some c' \<Longrightarrow> totalPassBoarded (fSt c) \<le> totalPassBoarded (fSt c')"
proof (induction as arbitrary: c)
  case Nil then show ?case by simp
next
  case (Cons a as)
  then show ?case
    by (cases "step K a Success c") (auto dest: step_total_mono intro: order_trans)
qed

text \<open>
  C2, as the code has it. In every configuration of every run (so at every point at which
  the mutex is free), \<open>nPassInFlight\<close> plus the
  number of passengers with status \<open>AT_DESTINATION\<close> is \<open>totalPassBoarded\<close>; the passengers
  in the queue are not part of \<open>totalPassBoarded\<close>: \<open>nPassInQueue\<close> plus
  \<open>totalPassBoarded\<close> is the number of passengers that have joined the queue, that is
  \<open>N\<close> less those that have no status yet. \<open>totalPassBoarded\<close> never decreases.
\<close>

theorem conservation:
  assumes "run K as (init K) = Some c" and "run K bs c = Some c'"
  shows "nPassInFlight (fSt c) + count_stat (N K) AT_DESTINATION (passengerStat (fSt c))
           = totalPassBoarded (fSt c)
       \<and> nPassInQueue (fSt c) + totalPassBoarded (fSt c) + count_stat (N K) UNSTARTED (passengerStat (fSt c)) = int (N K)
       \<and> totalPassBoarded (fSt c) \<le> totalPassBoarded (fSt c')"
proof -
  have i: "inv K c" using assms(1) by (rule inv_reached)
  then have "inv_passengers K c" "inv_counters K c" by (simp_all add: inv_def)
  then show ?thesis
    using count_stat_weigh [of K c] run_total_mono [OF assms(2)]
    by (simp add: inv_counters_def)
qed

theorem conservation_witness:
  "run K1 sched_to_H321 (init K1) = Some (after K1 sched_to_H321)
   \<and> run K1 [Hostess] (after K1 sched_to_H321)
        = Some (move K1 Hostess (after K1 sched_to_H321))
   \<and> nPassInFlight (fSt (after K1 sched_to_H321)) = 1
   \<and> count_stat (N K1) AT_DESTINATION (passengerStat (fSt (after K1 sched_to_H321))) = 0
   \<and> totalPassBoarded (fSt (after K1 sched_to_H321)) = 1
   \<and> totalPassBoarded (fSt (after K1 sched_to_H321))
        \<le> totalPassBoarded (fSt (move K1 Hostess (after K1 sched_to_H321)))"
proof -
  have r: "run K1 [Hostess] (after K1 sched_to_H321)
             = Some (move K1 Hostess (after K1 sched_to_H321))"
    by (simp add: example_defs model_defs body_defs)
  have f: "nPassInFlight (fSt (after K1 sched_to_H321)) = 1
      \<and> totalPassBoarded (fSt (after K1 sched_to_H321)) = 1"
    by (simp add: example_defs model_defs body_defs)
  from conservation [OF run_sched_to_H321 r] f run_sched_to_H321 r show ?thesis
    by simp
qed

text \<open>
  C2 as stated fails as soon as a passenger has joined the queue and released the mutex:
  the mutex is free, \<open>nPassInQueue\<close> is 1, and \<open>totalPassBoarded\<close> is still 0.
\<close>

theorem conservation_counterexample:
  "run K1 sched_enqueue (init K1) = Some (after K1 sched_enqueue)
   \<and> semval (after K1 sched_enqueue) mutex = 1
   \<and> nPassInQueue (fSt (after K1 sched_enqueue)) + nPassInFlight (fSt (after K1 sched_enqueue))
        + count_stat (N K1) AT_DESTINATION (passengerStat (fSt (after K1 sched_enqueue)))
      \<noteq> totalPassBoarded (fSt (after K1 sched_enqueue))"
  by (simp add: example_defs model_defs body_defs count_stat_def)

subsection \<open>The flag \<open>finished\<close>\<close>

text \<open>
  C4, as the code has it. In every configuration of every run (so at every point at which
  the mutex is released), \<open>finished\<close> implies
  \<open>totalPassBoarded = N\<close>; and \<open>finished\<close> is true exactly when \<open>totalPassBoarded = N\<close>
  (with \<open>N\<close> positive) and the hostess has gone through the critical region of
  \<^verbatim>\<open>signalReadyToFlight\<close> for the last flight. Between the check-in that makes
  \<open>totalPassBoarded\<close> reach \<open>N\<close> and that critical region, \<open>finished\<close> is still false.
\<close>

theorem finished_iff:
  assumes "run K as (init K) = Some c"
  shows "(finished (fSt c) \<longrightarrow> totalPassBoarded (fSt c) = int (N K))
       \<and> (finished (fSt c) \<longleftrightarrow>
             hostess c \<in> {H340, H347, H_return} \<and> totalPassBoarded (fSt c) = int (N K)
             \<and> 0 < N K)"
proof -
  have "inv K c" using assms by (rule inv_reached)
  then have "inv_hostess K c" by (simp add: inv_def)
  then have "finished (fSt c) \<longleftrightarrow>
      hostess c \<in> {H340, H347, H_return} \<and> totalPassBoarded (fSt c) = int (N K) \<and> 0 < N K"
    unfolding inv_hostess_def by (elim conjE)
  then show ?thesis by blast
qed

theorem finished_iff_witness:
  "run K1 sched_full (init K1) = Some (after K1 sched_full)
   \<and> hostess (after K1 sched_full) = H_return
   \<and> totalPassBoarded (fSt (after K1 sched_full)) = int (N K1)
   \<and> finished (fSt (after K1 sched_full))"
proof -
  have h: "hostess (after K1 sched_full) = H_return
      \<and> totalPassBoarded (fSt (after K1 sched_full)) = int (N K1) \<and> 0 < N K1"
    by (simp add: example_defs model_defs body_defs)
  with finished_iff [OF run_sched_full] run_sched_full show ?thesis
    by simp
qed

text \<open>
  C4 as stated fails after the last check-in: the hostess has released the mutex at line
  290 with \<open>totalPassBoarded = N\<close>, and \<open>finished\<close> is false until line 336.
\<close>

theorem finished_counterexample:
  "run K1 sched_to_H321 (init K1) = Some (after K1 sched_to_H321)
   \<and> semval (after K1 sched_to_H321) mutex = 1
   \<and> totalPassBoarded (fSt (after K1 sched_to_H321)) = int (N K1)
   \<and> \<not> finished (fSt (after K1 sched_to_H321))"
  by (simp add: example_defs model_defs body_defs)

subsection \<open>No deadlock before the end\<close>

lemma blocked_hostess:
  assumes "hostess_step K Success c = None"
  shows "(hostess c \<in> {H154, H188, H237, H261, H321} \<and> semval c mutex = 0)
       \<or> (hostess c = H171 \<and> semval c readyForBoarding = 0)
       \<or> (hostess c = H205 \<and> semval c passengersInQueue = 0)
       \<or> (hostess c = H255 \<and> semval c idShown = 0)
       \<or> hostess c = H_return \<or> (\<exists>msg. hostess c = H_exit_failure msg)"
  using assms unfolding hostess_step_def
  by (cases "hostess c") (simp_all add: semDown_def semUp_def split: if_splits)

lemma blocked_pilot:
  assumes "pilot_step Success c = None"
  shows "(pilot c = PL_lock \<and> semval c mutex = 0)
       \<or> (pilot c = PL_wait_ready \<and> semval c readyToFlight = 0)
       \<or> (pilot c = PL_wait_empty \<and> semval c planeEmpty = 0)
       \<or> pilot c = PL_exit_failure"
  using assms unfolding pilot_step_def
  by (cases "pilot c") (simp_all add: semDown_def semUp_def split: if_splits)

lemma blocked_passenger:
  assumes "passenger_step i Success c = None"
  shows "(passenger c i \<in> {P151, P184, P227} \<and> semval c mutex = 0)
       \<or> (passenger c i = P176 \<and> semval c passengersWaitInQueue = 0)
       \<or> (passenger c i = P224 \<and> semval c passengersWaitInFlight = 0)
       \<or> passenger c i = P_return \<or> (\<exists>msg. passenger c i = P_exit_failure msg)"
  using assms unfolding passenger_step_def
  by (cases "passenger c i") (simp_all add: semDown_def semUp_def split: if_splits)

lemma weigh_at_zero: "(\<And>i. i < n \<Longrightarrow> ps i \<noteq> p) \<Longrightarrow> weigh n (at p) ps = 0"
  by (simp add: weigh_def at_def)

lemma weigh_at_witness: "weigh n (at p) ps \<noteq> 0 \<Longrightarrow> \<exists>i<n. ps i = p"
  using weigh_at_zero [of n ps p] by blast

lemma weigh_three:
  assumes "\<And>i. i < n \<Longrightarrow> ps i = p1 \<or> ps i = p2 \<or> ps i = p3"
    and "p1 \<noteq> p2" "p1 \<noteq> p3" "p2 \<noteq> p3"
  shows "weigh n g ps = g p1 * weigh n (at p1) ps + g p2 * weigh n (at p2) ps
           + g p3 * weigh n (at p3) ps"
proof -
  have "weigh n g ps = (\<Sum>i<n. g p1 * at p1 (ps i) + g p2 * at p2 (ps i) + g p3 * at p3 (ps i))"
    unfolding weigh_def
    by (rule sum.cong) (use assms in \<open>auto simp: at_def\<close>)
  then show ?thesis
    by (simp add: weigh_def sum.distrib sum_distrib_left)
qed

lemma mutex_free_when_quiescent:
  assumes "inv K c" and "quiescent K c"
  shows "semval c mutex \<noteq> 0"
proof
  assume m: "semval c mutex = 0"
  have h: "hin {H164, H198, H248, H290, H340} (hostess c) = 0"
    using blocked_hostess [of K c] assms(2) by (auto simp: quiescent_def hin_def)
  have pl: "(case pilot c of PL_unlock k \<Rightarrow> 1 | _ \<Rightarrow> 0) = (0::int)"
    using blocked_pilot [of c] assms(2) by (auto simp: quiescent_def)
  have p: "passenger c i \<notin> {P162, P196, P239, P247}" if "i < N K" for i
  proof -
    from assms(2) that have "passenger_step i Success c = None"
      by (simp add: quiescent_def)
    from blocked_passenger [OF this] show ?thesis by auto
  qed
  have "weigh (N K) (at P162) (passenger c) = 0" "weigh (N K) (at P196) (passenger c) = 0"
    "weigh (N K) (at P239) (passenger c) = 0" "weigh (N K) (at P247) (passenger c) = 0"
    using p by (auto intro!: weigh_at_zero)
  with h pl m assms(1) show False
    by (simp add: inv_def inv_mutex_def)
qed

lemma quiescent_final:
  assumes "inv K c" and "quiescent K c"
  shows "hostess c = H_return \<and> pilot c = PL_wait_ready \<and> (\<forall>i<N K. passenger c i = P_return)"
proof -
  have m: "semval c mutex \<noteq> 0" using assms by (rule mutex_free_when_quiescent)
  from assms(1) have im: "inv_counters K c" and ip: "inv_passengers K c"
    and ih: "inv_hostess K c" and ifl: "inv_flight K c"
    by (simp_all add: inv_def)
  have H: "(hostess c = H171 \<and> semval c readyForBoarding = 0)
       \<or> (hostess c = H205 \<and> semval c passengersInQueue = 0)
       \<or> (hostess c = H255 \<and> semval c idShown = 0)
       \<or> hostess c = H_return"
    using blocked_hostess [of K c] assms(2) m ih
    by (auto simp: quiescent_def inv_hostess_def)
  have PL: "(pilot c = PL_wait_ready \<and> semval c readyToFlight = 0)
       \<or> (pilot c = PL_wait_empty \<and> semval c planeEmpty = 0)"
    using blocked_pilot [of c] assms(2) m ifl
    by (auto simp: quiescent_def inv_flight_def)
  have P: "(passenger c i = P176 \<and> semval c passengersWaitInQueue = 0)
       \<or> (passenger c i = P224 \<and> semval c passengersWaitInFlight = 0)
       \<or> passenger c i = P_return" if "i < N K" for i
  proof -
    from assms(2) that have "passenger_step i Success c = None"
      by (simp add: quiescent_def)
    from blocked_passenger [OF this] m ip that show ?thesis
      by (auto simp: inv_passengers_def)
  qed
  define a where "a = weigh (N K) (at P176) (passenger c)"
  define b where "b = weigh (N K) (at P224) (passenger c)"
  define r where "r = weigh (N K) (at P_return) (passenger c)"
  have three: "weigh (N K) g (passenger c) = g P176 * a + g P224 * b + g P_return * r" for g
    unfolding a_def b_def r_def
    by (rule weigh_three) (use P in auto)
  have n: "a + b + r = int (N K)"
    using three [of "\<lambda>p. 1"] by (simp add: weigh_def)
  have nonneg: "0 \<le> a" "0 \<le> b" "0 \<le> r"
    by (simp_all add: a_def b_def r_def weigh_at_nonneg)
  have a0: "a = 0 \<or> semval c passengersWaitInQueue = 0"
  proof (cases "a = 0")
    case False
    then obtain i where "i < N K" and "passenger c i = P176"
      using weigh_at_witness [of "N K" P176 "passenger c"] by (auto simp: a_def)
    with P [of i] show ?thesis by simp
  qed simp
  have b0: "b = 0 \<or> semval c passengersWaitInFlight = 0"
  proof (cases "b = 0")
    case False
    then obtain i where "i < N K" and "passenger c i = P224"
      using weigh_at_witness [of "N K" P224 "passenger c"] by (auto simp: b_def)
    with P [of i] show ?thesis by simp
  qed simp
  have w: "weigh (N K) (past P176) (passenger c) = a + b + r"
    "weigh (N K) (past P184) (passenger c) = b + r"
    "weigh (N K) (past P224) (passenger c) = b + r"
    "weigh (N K) (past P239) (passenger c) = r"
    "weigh (N K) (at P227) (passenger c) = 0"
    "weigh (N K) (at P239) (passenger c) = 0"
    by (simp_all add: three past_def at_def)
  note D = inv_counters_def inv_hostess_def inv_flight_def grounded_def hin_def
    boarding_def seated_def
  have hr: "hostess c = H_return \<and> pilot c = PL_wait_ready \<and> b = 0 \<and> a = 0"
    using H
  proof (elim disjE conjE)
    assume h: "hostess c = H171" "semval c readyForBoarding = 0"
    from PL show ?thesis
    proof (elim disjE conjE)
      assume "pilot c = PL_wait_ready" "semval c readyToFlight = 0"
      with h ifl show ?thesis by (simp add: D)
    next
      assume "pilot c = PL_wait_empty" "semval c planeEmpty = 0"
      with h im ifl nonneg b0 w show ?thesis
        by (simp add: D split: if_splits; linarith)
    qed
  next
    assume h: "hostess c = H205" "semval c passengersInQueue = 0"
    with im ih n w show ?thesis by (simp add: D)
  next
    assume h: "hostess c = H255" "semval c idShown = 0"
    with im n nonneg a0 w show ?thesis
      by (simp add: D; linarith)
  next
    assume h: "hostess c = H_return"
    from PL show ?thesis
    proof (elim disjE conjE)
      assume "pilot c = PL_wait_ready" "semval c readyToFlight = 0"
      with h im ih ifl n nonneg w show ?thesis
        by (simp add: D; linarith)
    next
      assume "pilot c = PL_wait_empty" "semval c planeEmpty = 0"
      with h im ih ifl n nonneg b0 w show ?thesis
        by (simp add: D split: if_splits; linarith)
    qed
  qed
  moreover have "passenger c i = P_return" if "i < N K" for i
  proof -
    from hr have "weigh (N K) (at P176) (passenger c) = 0" "weigh (N K) (at P224) (passenger c) = 0"
      by (simp_all add: a_def b_def)
    with weigh_at_pos [OF that, of "passenger c"] P [OF that] show ?thesis by auto
  qed
  ultimately show ?thesis by blast
qed

subsection \<open>Every run is finite\<close>

lemma potential_hostess:
  "hostess_step K Success c = Some c' \<Longrightarrow> potential K c' < potential K c"
  unfolding hostess_step_def
  by (cases "hostess c"; clarsimp simp: hsem split: if_splits;
      simp add: potential_def hin_def)

lemma potential_pilot:
  "pilot_step Success c = Some c' \<Longrightarrow> potential K c' < potential K c"
  unfolding pilot_step_def
  by (cases "pilot c"; clarsimp simp: plsem split: if_splits;
      simp add: potential_def)

lemma potential_passenger:
  "i < N K \<Longrightarrow> passenger_step i Success c = Some c' \<Longrightarrow> potential K c' < potential K c"
  unfolding passenger_step_def
  by (cases "passenger c i"; clarsimp simp: psem split: if_splits;
      simp add: potential_def pbody)

lemma potential_step:
  "step K a Success c = Some c' \<Longrightarrow> potential K c' < potential K c"
  by (cases a)
     (auto simp: step_def split: if_splits
        intro: potential_hostess potential_pilot potential_passenger)

lemma potential_run:
  "run K as c = Some c' \<Longrightarrow> int (length as) \<le> potential K c - potential K c'"
proof (induction as arbitrary: c)
  case Nil
  then show ?case by simp
next
  case (Cons a as)
  then obtain c1 where s: "step K a Success c = Some c1" and r: "run K as c1 = Some c'"
    by (cases "step K a Success c") auto
  from potential_step [OF s] Cons.IH [OF r] show ?case by simp
qed

lemma potential_init: "potential K (init K) \<le> 34 * int (N K) + 13"
  by (simp add: potential_def init_def main_while_def weigh_def hin_def)

lemma weigh_mono: "(\<And>p. g p \<le> h p) \<Longrightarrow> weigh n g ps \<le> weigh n h ps"
  by (simp add: weigh_def sum_mono)

lemma weigh_cong_all: "(\<And>p. g p = h p) \<Longrightarrow> weigh n g ps = weigh n h ps"
  by (simp add: weigh_def)

lemma weigh_plus: "weigh n (\<lambda>p. g p + h p) ps = weigh n g ps + weigh n h ps"
  by (simp add: weigh_def sum.distrib)

lemma past_P224_split:
  "weigh n (past P224) ps = weigh n (at P224) ps + weigh n (at P227) ps + weigh n (past P239) ps"
proof -
  have "past P224 p = at P224 p + at P227 p + past P239 p" for p
    by (cases p) (simp_all add: past_def at_def)
  then have "weigh n (past P224) ps = weigh n (\<lambda>p. at P224 p + at P227 p + past P239 p) ps"
    by (rule weigh_cong_all)
  then show ?thesis by (simp add: weigh_plus)
qed

lemma prem_at_P224: "at P224 p \<le> prem p"
  by (cases p) (simp_all add: at_def)

lemma released_bound:
  assumes "inv K c"
  shows "int (semval c passengersWaitInFlight) \<le> weigh (N K) (at P224) (passenger c)"
proof -
  from assms have ic: "inv_counters K c" and ifl: "inv_flight K c"
    by (simp_all add: inv_def)
  have h: "hin {H290} (hostess c) \<le> hin {H261, H290} (hostess c)"
    by (simp add: hin_def)
  have f: "int (semval c passengersWaitInFlight) + weigh (N K) (at P227) (passenger c)
             \<le> nPassInFlight (fSt c)"
    using ifl weigh_at_nonneg [of "N K" P227 "passenger c"]
    by (cases "pilot c") (simp_all add: inv_flight_def grounded_def)
  from ic h f past_P224_split [of "N K" "passenger c"] show ?thesis
    by (simp add: inv_counters_def)
qed

lemma potential_nonneg:
  assumes "inv K c"
  shows "0 \<le> potential K c"
proof -
  from assms have ih: "inv_hostess K c" by (simp add: inv_def)
  have 1: "int (semval c passengersWaitInFlight) \<le> weigh (N K) prem (passenger c)"
    using released_bound [OF assms] weigh_mono [of "at P224" prem "N K" "passenger c"] prem_at_P224
    by (meson order_trans)
  have 2: "nPassengers c \<le> int (N K)"
    using ih by (cases "hostess c") (simp_all add: inv_hostess_def)
  have 3: "0 \<le> hrem (hostess c)" by (cases "hostess c") simp_all
  have 4: "0 \<le> plrem (pilot c)" by (cases "pilot c") simp_all
  have 5: "0 \<le> hin {H321, H340, H347} (hostess c)" by (rule hin_range)
  from 1 2 3 4 5 show ?thesis by (simp add: potential_def)
qed

lemma run_length:
  assumes "run K as (init K) = Some c"
  shows "length as \<le> 34 * N K + 13"
proof -
  have "inv K c" using assms by (rule inv_reached)
  with potential_run [OF assms] potential_init [of K] potential_nonneg [of K c]
  have "int (length as) \<le> 34 * int (N K) + 13" by linarith
  then show ?thesis by linarith
qed

lemma not_quiescent_moves:
  assumes "\<not> quiescent K c"
  shows "\<exists>a c'. step K a Success c = Some c'"
proof -
  from assms consider "hostess_step K Success c \<noteq> None" | "pilot_step Success c \<noteq> None"
    | i where "i < N K" "passenger_step i Success c \<noteq> None"
    by (auto simp: quiescent_def)
  then show ?thesis
  proof cases
    case 1
    then show ?thesis by (auto simp: step_def intro!: exI [of _ Hostess])
  next
    case 2
    then show ?thesis by (auto simp: step_def intro!: exI [of _ Pilot])
  next
    case 3
    then show ?thesis by (auto simp: step_def intro!: exI [of _ "Passenger i"])
  qed
qed

lemma runs_to_the_end:
  assumes "inv K c"
  shows "\<exists>bs c'. run K bs c = Some c' \<and> quiescent K c'"
  using assms
proof (induction "nat (potential K c)" arbitrary: c rule: less_induct)
  case less
  show ?case
  proof (cases "quiescent K c")
    case True
    then have "run K [] c = Some c \<and> quiescent K c" by simp
    then show ?thesis by blast
  next
    case False
    then obtain a c1 where s: "step K a Success c = Some c1"
      using not_quiescent_moves by blast
    have i1: "inv K c1" using less.prems s by (rule inv_step)
    have "nat (potential K c1) < nat (potential K c)"
      using potential_step [OF s] potential_nonneg [OF i1] by linarith
    from less.hyps [OF this i1] obtain bs c' where "run K bs c1 = Some c'" "quiescent K c'"
      by blast
    with s have "run K (a # bs) c = Some c' \<and> quiescent K c'" by simp
    then show ?thesis by blast
  qed
qed

text \<open>
  C6. With \<open>N\<close> passengers and the pilot of the spec, every run is finite (at most
  \<open>34 N + 13\<close> steps), it can always be continued to a configuration in which nobody can
  move, and in such a configuration the hostess has left the outer loop of \<^verbatim>\<open>main\<close>.
  When she has left it, she has performed exactly \<open>N\<close> check-ins. Before that,
  \<open>nPassengers\<close> is below \<open>N\<close> unless she is in \<^verbatim>\<open>signalReadyToFlight\<close> for the last
  flight, so the loop is left as soon as the count reaches \<open>N\<close>; and a flight that departs
  has at least one passenger aboard.
\<close>

theorem hostess_terminates:
  assumes "run K as (init K) = Some c"
  shows "length as \<le> 34 * N K + 13
       \<and> (\<exists>bs c'. run K (as @ bs) (init K) = Some c' \<and> quiescent K c')
       \<and> (quiescent K c \<longrightarrow> hostess c = H_return)
       \<and> (hostess c = H_return \<longrightarrow>
             nPassengers c = int (N K) \<and> totalPassBoarded (fSt c) = int (N K))
       \<and> totalPassBoarded (fSt c) = nPassengers c + hin {H290} (hostess c)
       \<and> (hostess c \<noteq> H_return \<longrightarrow> nPassengers c < int (N K) \<or> hostess c \<in> {H321, H340, H347})
       \<and> (hostess c \<in> {H321, H340, H347} \<longrightarrow> 1 \<le> nPassInFlight (fSt c))"
proof -
  have i: "inv K c" using assms by (rule inv_reached)
  then have ih: "inv_hostess K c" and ifl: "inv_flight K c" by (simp_all add: inv_def)
  from runs_to_the_end [OF i] obtain bs c' where "run K bs c = Some c'" "quiescent K c'"
    by blast
  with assms have e: "\<exists>bs c'. run K (as @ bs) (init K) = Some c' \<and> quiescent K c'"
    by (auto simp: run_append)
  have q: "quiescent K c \<longrightarrow> hostess c = H_return"
    using quiescent_final [OF i] by blast
  have r: "hostess c = H_return \<longrightarrow>
             nPassengers c = int (N K) \<and> totalPassBoarded (fSt c) = int (N K)"
    using ih by (simp add: inv_hostess_def hin_def)
  have t: "totalPassBoarded (fSt c) = nPassengers c + hin {H290} (hostess c)"
    using ih by (simp add: inv_hostess_def)
  have b: "hostess c \<noteq> H_return \<longrightarrow> nPassengers c < int (N K) \<or> hostess c \<in> {H321, H340, H347}"
    using ih by (cases "hostess c") (simp_all add: inv_hostess_def)
  have f: "hostess c \<in> {H321, H340, H347} \<longrightarrow> 1 \<le> nPassInFlight (fSt c)"
    using ifl by (auto simp: inv_flight_def hin_def seated_def split: if_splits)
  from run_length [OF assms] e q r t b f show ?thesis by blast
qed

lemma quiescent_sched_full: "quiescent K1 (after K1 sched_full)"
  by (simp add: quiescent_def example_defs model_defs body_defs)

theorem hostess_terminates_witness:
  "run K1 sched_full (init K1) = Some (after K1 sched_full)
   \<and> length sched_full \<le> 34 * N K1 + 13
   \<and> quiescent K1 (after K1 sched_full)
   \<and> hostess (after K1 sched_full) = H_return
   \<and> nPassengers (after K1 sched_full) = int (N K1)
   \<and> totalPassBoarded (fSt (after K1 sched_full)) = int (N K1)
   \<and> run K1 sched_to_H321 (init K1) = Some (after K1 sched_to_H321)
   \<and> hostess (after K1 sched_to_H321) = H321
   \<and> 1 \<le> nPassInFlight (fSt (after K1 sched_to_H321))"
proof -
  have h: "hostess (after K1 sched_to_H321) = H321"
    by (simp add: example_defs model_defs body_defs)
  from hostess_terminates [OF run_sched_to_H321] h
  have "1 \<le> nPassInFlight (fSt (after K1 sched_to_H321))"
    by simp
  with hostess_terminates [OF run_sched_full] quiescent_sched_full run_sched_full
    run_sched_to_H321 h
  show ?thesis by blast
qed

subsection \<open>The counters stay in range\<close>

text \<open>
  In the runs considered the counters stay between 0 and \<open>N\<close>: the integers of the model
  never leave the range of a C \<^verbatim>\<open>int\<close>.
\<close>

lemma weigh_past_le: "weigh n (past p) ps \<le> int n"
proof -
  have "weigh n (past p) ps \<le> weigh n (\<lambda>q. 1) ps"
    by (rule weigh_mono) (simp add: past_def)
  then show ?thesis by (simp add: weigh_def)
qed

lemma weigh_past_nonneg: "0 \<le> weigh n (past p) ps"
  by (rule weigh_nonneg) (simp add: past_def)

lemma past_P162_P224: "weigh n (past P224) ps \<le> weigh n (past P162) ps"
  by (rule weigh_mono) (simp add: past_def)

lemma counters_bounded:
  assumes "run K as (init K) = Some c"
  shows "0 \<le> nPassInQueue (fSt c) \<and> nPassInQueue (fSt c) \<le> int (N K)
       \<and> 0 \<le> nPassInFlight (fSt c) \<and> nPassInFlight (fSt c) \<le> int (N K)
       \<and> 0 \<le> totalPassBoarded (fSt c) \<and> totalPassBoarded (fSt c) \<le> int (N K)
       \<and> 0 \<le> nPassengers c \<and> nPassengers c \<le> int (N K)"
proof -
  have i: "inv K c" using assms by (rule inv_reached)
  then have ic: "inv_counters K c" and ih: "inv_hostess K c" and ifl: "inv_flight K c"
    by (simp_all add: inv_def)
  have np: "0 \<le> nPassengers c \<and> nPassengers c + hin {H290} (hostess c) \<le> int (N K)"
    using ih by (cases "hostess c") (simp_all add: inv_hostess_def hin_def)
  have h: "hin {H290} (hostess c) \<le> hin {H261, H290} (hostess c)"
    by (simp add: hin_def)
  from ic ifl np h hin_range(1) [of "{H290}" "hostess c"]
    weigh_past_le [of "N K" P162 "passenger c"] weigh_past_nonneg [of "N K" P239 "passenger c"]
    past_P162_P224 [of "N K" "passenger c"]
  show ?thesis
    by (simp add: inv_counters_def inv_flight_def)
qed

subsection \<open>The signal \<open>planeEmpty\<close>\<close>

lemma awaiting_hostess:
  "hostess_step K Success c = Some c' \<Longrightarrow> awaiting_planeEmpty c' = awaiting_planeEmpty c"
  unfolding hostess_step_def
  by (cases "hostess c"; clarsimp simp: hsem split: if_splits;
      simp add: awaiting_planeEmpty_def)

lemma awaiting_pilot:
  assumes "inv_flight K c" and "pilot_step Success c = Some c'"
  shows "awaiting_planeEmpty c' = (if pilot c = PL_wait_ready then 1 else 0) + awaiting_planeEmpty c"
  using assms unfolding pilot_step_def
  by (cases "pilot c"; clarsimp simp: plsem split: if_splits;
      simp add: awaiting_planeEmpty_def inv_flight_def grounded_def)

lemma awaiting_passenger:
  assumes "inv_flight K c" and "i < N K" and "passenger_step i Success c = Some c'"
  shows "(if passenger c i = P239 then 1 else 0) + awaiting_planeEmpty c' = awaiting_planeEmpty c"
proof -
  note facts = weigh_at_pos [of i "N K" "passenger c" P239]
  show ?thesis
    using assms facts unfolding passenger_step_def
    by (cases "passenger c i"; clarsimp simp: psem split: if_splits;
        cases "pilot c";
        simp add: awaiting_planeEmpty_def inv_flight_def grounded_def pbody split: if_splits)
qed

lemma awaiting_step:
  assumes "inv K c" and "step K a Success c = Some c'"
  shows "(if signals_planeEmpty a c then 1 else 0) + awaiting_planeEmpty c'
           = (if takes_off a c then 1 else 0) + awaiting_planeEmpty c"
proof (cases a)
  case Hostess
  with assms(2) show ?thesis
    by (simp add: step_def signals_planeEmpty_def takes_off_def awaiting_hostess)
next
  case (Passenger i)
  with assms(2) have "i < N K" and "passenger_step i Success c = Some c'"
    by (simp_all add: step_def split: if_splits)
  with assms(1) awaiting_passenger [of K c i c'] Passenger show ?thesis
    by (simp add: inv_def signals_planeEmpty_def takes_off_def)
next
  case Pilot
  with assms awaiting_pilot [of K c c'] show ?thesis
    by (simp add: inv_def step_def signals_planeEmpty_def takes_off_def)
qed

lemma tally_run:
  assumes "inv K c" and "run K as c = Some c'"
  shows "tally K signals_planeEmpty as c + awaiting_planeEmpty c'
           = tally K takes_off as c + awaiting_planeEmpty c"
  using assms
proof (induction as arbitrary: c)
  case Nil
  then show ?case by simp
next
  case (Cons a as)
  then obtain c1 where s: "step K a Success c = Some c1" and r: "run K as c1 = Some c'"
    by (cases "step K a Success c") auto
  have "inv K c1" using Cons.prems(1) s by (rule inv_step)
  from Cons.IH [OF this r] awaiting_step [OF Cons.prems(1) s] s show ?case
    by simp
qed

lemma leave_step:
  assumes "passenger c i = P227" and "i < N K" and "step K (Passenger i) Success c = Some c'"
  shows "0 < semval c mutex \<and> semval c' mutex = semval c mutex - 1
       \<and> semval c' planeEmpty = semval c planeEmpty
       \<and> nPassInFlight (fSt c') = nPassInFlight (fSt c) - 1
       \<and> passengerStat (fSt c') i = AT_DESTINATION
       \<and> passenger c' i = (if nPassInFlight (fSt c') = 0 then P239 else P247)"
  using assms
  by (auto simp: step_def passenger_step_def psem pbody split: if_splits)

lemma signaller_state:
  assumes "inv K c" and "i < N K" and "passenger c i = P239"
  shows "semval c mutex = 0 \<and> nPassInFlight (fSt c) = 0 \<and> semval c planeEmpty = 0
       \<and> weigh (N K) (at P239) (passenger c) = 1 \<and> pilot c = PL_wait_empty"
proof -
  from assms(1) have im: "inv_mutex K c" and ifl: "inv_flight K c" by (simp_all add: inv_def)
  note p = weigh_at_pos [of i "N K" "passenger c" P239, OF assms(2,3)]
  have m: "semval c mutex = 0"
    using im p hin_range(1) [of "{H164, H198, H248, H290, H340}" "hostess c"]
      weigh_at_nonneg [of "N K" P162 "passenger c"] weigh_at_nonneg [of "N K" P196 "passenger c"]
      weigh_at_nonneg [of "N K" P247 "passenger c"]
    by (cases "pilot c") (simp_all add: inv_mutex_def)
  have "nPassInFlight (fSt c) = 0 \<and> semval c planeEmpty = 0
       \<and> weigh (N K) (at P239) (passenger c) = 1 \<and> pilot c = PL_wait_empty"
    using ifl p
    by (cases "pilot c") (simp_all add: inv_flight_def grounded_def split: if_splits)
  with m show ?thesis by simp
qed

text \<open>
  C8. Along every run, the number of \<open>planeEmpty\<close> signals sent by passengers is the number
  of flights that have departed, less one while the flight under way has not been
  signalled empty: one signal for each flight. At most one passenger is at line 239 or one
  signal is pending at any time. A passenger at line 239 holds the mutex, the plane is
  empty, and its step signals \<open>planeEmpty\<close> before the mutex is released. The step of a
  passenger at line 227 takes the mutex, decrements \<open>nPassInFlight\<close>, and leads to line 239
  exactly when the decrement has brought it to zero, to line 247 otherwise.
\<close>

theorem planeEmpty_once_per_flight:
  assumes "run K as (init K) = Some c"
  shows "tally K signals_planeEmpty as (init K) + awaiting_planeEmpty c
           = tally K takes_off as (init K)
       \<and> int (semval c planeEmpty) + weigh (N K) (at P239) (passenger c) \<le> 1
       \<and> (\<forall>i<N K. passenger c i = P239 \<longrightarrow>
             semval c mutex = 0 \<and> nPassInFlight (fSt c) = 0 \<and> semval c planeEmpty = 0
             \<and> (\<exists>c'. step K (Passenger i) Success c = Some c'
                   \<and> semval c' planeEmpty = 1 \<and> semval c' mutex = 0 \<and> passenger c' i = P247))
       \<and> (\<forall>i<N K. \<forall>c'. passenger c i = P227 \<longrightarrow> step K (Passenger i) Success c = Some c' \<longrightarrow>
             semval c mutex = 1 \<and> semval c' mutex = 0
             \<and> semval c' planeEmpty = semval c planeEmpty
             \<and> nPassInFlight (fSt c') = nPassInFlight (fSt c) - 1
             \<and> passenger c' i = (if nPassInFlight (fSt c') = 0 then P239 else P247))"
proof -
  have i: "inv K c" using assms by (rule inv_reached)
  then have im: "inv_mutex K c" and ifl: "inv_flight K c" by (simp_all add: inv_def)
  have a0: "awaiting_planeEmpty (init K) = 0"
    by (simp add: awaiting_planeEmpty_def init_def main_while_def)
  have 1: "tally K signals_planeEmpty as (init K) + awaiting_planeEmpty c
           = tally K takes_off as (init K)"
    using tally_run [OF inv_init assms] a0 by simp
  have 2: "int (semval c planeEmpty) + weigh (N K) (at P239) (passenger c) \<le> 1"
    using ifl by (cases "pilot c") (simp_all add: inv_flight_def grounded_def)
  have 3: "semval c mutex = 0 \<and> nPassInFlight (fSt c) = 0 \<and> semval c planeEmpty = 0
             \<and> (\<exists>c'. step K (Passenger j) Success c = Some c'
                   \<and> semval c' planeEmpty = 1 \<and> semval c' mutex = 0 \<and> passenger c' j = P247)"
    if "j < N K" "passenger c j = P239" for j
    using signaller_state [OF i that] that
    by (simp add: step_def passenger_step_def psem pbody)
  have mle: "semval c mutex \<le> 1"
    using im hin_range(1) [of "{H164, H198, H248, H290, H340}" "hostess c"]
      weigh_at_nonneg [of "N K" P162 "passenger c"] weigh_at_nonneg [of "N K" P196 "passenger c"]
      weigh_at_nonneg [of "N K" P239 "passenger c"] weigh_at_nonneg [of "N K" P247 "passenger c"]
    by (cases "pilot c") (simp_all add: inv_mutex_def)
  have 4: "semval c mutex = 1 \<and> semval c' mutex = 0
             \<and> semval c' planeEmpty = semval c planeEmpty
             \<and> nPassInFlight (fSt c') = nPassInFlight (fSt c) - 1
             \<and> passenger c' j = (if nPassInFlight (fSt c') = 0 then P239 else P247)"
    if "j < N K" "passenger c j = P227" "step K (Passenger j) Success c = Some c'" for j c'
    using leave_step [OF that(2,1,3)] mle by auto
  from 1 2 3 4 show ?thesis by blast
qed

theorem planeEmpty_once_per_flight_witness:
  "run K1 sched_to_P227 (init K1) = Some (after K1 sched_to_P227)
   \<and> passenger (after K1 sched_to_P227) 0 = P227
   \<and> step K1 (Passenger 0) Success (after K1 sched_to_P227)
        = Some (move K1 (Passenger 0) (after K1 sched_to_P227))
   \<and> nPassInFlight (fSt (move K1 (Passenger 0) (after K1 sched_to_P227))) = 0
   \<and> passenger (move K1 (Passenger 0) (after K1 sched_to_P227)) 0 = P239
   \<and> semval (move K1 (Passenger 0) (after K1 sched_to_P227)) mutex = 0
   \<and> tally K1 takes_off sched_to_P227 (init K1) = 1
   \<and> awaiting_planeEmpty (after K1 sched_to_P227) = 1
   \<and> tally K1 signals_planeEmpty sched_to_P227 (init K1) = 0
   \<and> run K1 sched_to_P239 (init K1) = Some (after K1 sched_to_P239)
   \<and> passenger (after K1 sched_to_P239) 0 = P239
   \<and> semval (after K1 sched_to_P239) mutex = 0
   \<and> nPassInFlight (fSt (after K1 sched_to_P239)) = 0
   \<and> semval (after K1 sched_to_P239) planeEmpty = 0"
proof -
  have p: "passenger (after K1 sched_to_P227) 0 = P227 \<and> 0 < N K1"
    by (simp add: example_defs model_defs body_defs)
  have s: "step K1 (Passenger 0) Success (after K1 sched_to_P227)
             = Some (move K1 (Passenger 0) (after K1 sched_to_P227))"
    by (simp add: example_defs model_defs body_defs)
  have f: "nPassInFlight (fSt (after K1 sched_to_P227)) = 1"
    by (simp add: example_defs model_defs body_defs)
  have t: "tally K1 takes_off sched_to_P227 (init K1) = 1"
    by (simp add: takes_off_def example_defs model_defs body_defs)
  have a: "awaiting_planeEmpty (after K1 sched_to_P227) = 1"
    by (simp add: awaiting_planeEmpty_def example_defs model_defs body_defs)
  note once = planeEmpty_once_per_flight [OF run_sched_to_P227]
  from once t a have g: "tally K1 signals_planeEmpty sched_to_P227 (init K1) = 0"
    by simp
  from once p s have
    "semval (move K1 (Passenger 0) (after K1 sched_to_P227)) mutex = 0
     \<and> nPassInFlight (fSt (move K1 (Passenger 0) (after K1 sched_to_P227)))
          = nPassInFlight (fSt (after K1 sched_to_P227)) - 1
     \<and> passenger (move K1 (Passenger 0) (after K1 sched_to_P227)) 0
          = (if nPassInFlight (fSt (move K1 (Passenger 0) (after K1 sched_to_P227))) = 0
             then P239 else P247)"
    by blast
  with f have m: "semval (move K1 (Passenger 0) (after K1 sched_to_P227)) mutex = 0
     \<and> nPassInFlight (fSt (move K1 (Passenger 0) (after K1 sched_to_P227))) = 0
     \<and> passenger (move K1 (Passenger 0) (after K1 sched_to_P227)) 0 = P239"
    by simp
  have p9: "passenger (after K1 sched_to_P239) 0 = P239"
    by (simp add: example_defs model_defs body_defs)
  from planeEmpty_once_per_flight [OF run_sched_to_P239] p p9
  have e: "semval (after K1 sched_to_P239) mutex = 0
     \<and> nPassInFlight (fSt (after K1 sched_to_P239)) = 0
     \<and> semval (after K1 sched_to_P239) planeEmpty = 0"
    by blast
  from p s t a g m p9 e run_sched_to_P227 run_sched_to_P239 show ?thesis by blast
qed


subsection \<open>The statuses of a passenger\<close>

lemma stat_of_rank_inverse [simp]: "stat_of_rank (stat_rank s) = s"
  by (cases s) (simp_all add: numeral_2_eq_2 numeral_3_eq_3)

lemma stat_hostess:
  "hostess_step K Success c = Some c' \<Longrightarrow> passengerStat (fSt c') = passengerStat (fSt c)"
  unfolding hostess_step_def
  by (cases "hostess c"; clarsimp simp: hsem split: if_splits; simp add: hbody)

lemma stat_pilot:
  "pilot_step Success c = Some c' \<Longrightarrow> passengerStat (fSt c') = passengerStat (fSt c)"
  unfolding pilot_step_def
  by (cases "pilot c"; clarsimp simp: plsem split: if_splits)

lemma stat_passenger:
  assumes "inv_passengers K c" and "j < N K" and "passenger_step j Success c = Some c'"
  shows "passengerStat (fSt c') i = passengerStat (fSt c) i
       \<or> (i = j \<and> stat_rank (passengerStat (fSt c') i) = Suc (stat_rank (passengerStat (fSt c) i)))"
proof -
  from assms(1,2) have "passengerStat (fSt c) j = stat_of (passenger c j)"
    by (simp add: inv_passengers_def)
  with assms(3) show ?thesis
    unfolding passenger_step_def
    by (cases "passenger c j"; clarsimp simp: psem split: if_splits; simp add: pbody)
qed

lemma stat_step:
  assumes "inv K c" and "step K a Success c = Some c'"
  shows "passengerStat (fSt c') i = passengerStat (fSt c) i
       \<or> (a = Passenger i
           \<and> stat_rank (passengerStat (fSt c') i) = Suc (stat_rank (passengerStat (fSt c) i)))"
proof (cases a)
  case Hostess
  with assms(2) show ?thesis by (simp add: step_def stat_hostess)
next
  case (Passenger j)
  with assms(2) have "j < N K" and "passenger_step j Success c = Some c'"
    by (simp_all add: step_def split: if_splits)
  with assms(1) stat_passenger [of K c j c' i] Passenger show ?thesis
    by (auto simp: inv_def)
next
  case Pilot
  with assms(2) show ?thesis by (simp add: step_def stat_pilot)
qed

lemma trace_Cons: "\<exists>cs. trace K as c = c # cs"
  by (cases as) simp_all

lemma history_from:
  assumes "inv K c0" and "run K as c0 = Some c"
  shows "remdups_adj (map (\<lambda>d. passengerStat (fSt d) i) (trace K as c0))
           = map stat_of_rank
               [stat_rank (passengerStat (fSt c0) i) ..< Suc (stat_rank (passengerStat (fSt c) i))]"
  using assms
proof (induction as arbitrary: c0)
  case Nil
  then show ?case by simp
next
  case (Cons a as)
  then obtain c1 where s: "step K a Success c0 = Some c1" and r: "run K as c1 = Some c"
    by (cases "step K a Success c0") auto
  have i1: "inv K c1" using Cons.prems(1) s by (rule inv_step)
  obtain cs where t: "trace K as c1 = c1 # cs" using trace_Cons by blast
  let ?st = "\<lambda>d. passengerStat (fSt d) i"
  have ih: "remdups_adj (?st c1 # map ?st cs)
              = map stat_of_rank [stat_rank (?st c1) ..< Suc (stat_rank (?st c))]"
    using Cons.IH [OF i1 r] t by simp
  then have le: "stat_rank (?st c1) < Suc (stat_rank (?st c))"
    by (cases "stat_rank (?st c1) < Suc (stat_rank (?st c))") simp_all
  from stat_step [OF Cons.prems(1) s, of i]
  show ?case
  proof
    assume e: "?st c1 = ?st c0"
    then have "remdups_adj (?st c0 # ?st c1 # map ?st cs) = remdups_adj (?st c1 # map ?st cs)"
      by simp
    with ih e s t show ?thesis by simp
  next
    assume "a = Passenger i \<and> stat_rank (?st c1) = Suc (stat_rank (?st c0))"
    then have n: "stat_rank (?st c1) = Suc (stat_rank (?st c0))" by simp
    then have ne: "?st c0 \<noteq> ?st c1" by auto
    then have "remdups_adj (?st c0 # ?st c1 # map ?st cs)
                 = ?st c0 # remdups_adj (?st c1 # map ?st cs)"
      by simp
    also have "\<dots> = stat_of_rank (stat_rank (?st c0))
                 # map stat_of_rank [Suc (stat_rank (?st c0)) ..< Suc (stat_rank (?st c))]"
      using ih n by simp
    also have "\<dots> = map stat_of_rank [stat_rank (?st c0) ..< Suc (stat_rank (?st c))]"
      using le n by (simp add: upt_conv_Cons)
    finally show ?thesis using s t by simp
  qed
qed

lemma ranks_upto:
  "map stat_of_rank [0 ..< Suc (stat_rank s)]
     = take (Suc (stat_rank s)) [UNSTARTED, IN_QUEUE, IN_FLIGHT, AT_DESTINATION]"
  by (cases s) (simp_all add: upt_rec numeral_2_eq_2 numeral_3_eq_3)

text \<open>
  C9. For every passenger \<open>i\<close> and every run, the statuses of \<open>i\<close> along the run are, in
  this order and each once, \<open>UNSTARTED\<close>, \<open>IN_QUEUE\<close>, \<open>IN_FLIGHT\<close>, \<open>AT_DESTINATION\<close>, up to
  the status \<open>i\<close> has at the end of the run; when the run has come to its end (nobody can
  move) the history is complete. A step changes the status of \<open>i\<close> only when it is a step
  of passenger \<open>i\<close>, and then to the next status.
\<close>

theorem status_history:
  assumes "run K as (init K) = Some c" and "i < N K"
  shows "stat_history K as i
           = take (Suc (stat_rank (passengerStat (fSt c) i)))
               [UNSTARTED, IN_QUEUE, IN_FLIGHT, AT_DESTINATION]
       \<and> (quiescent K c \<longrightarrow>
             stat_history K as i = [UNSTARTED, IN_QUEUE, IN_FLIGHT, AT_DESTINATION])
       \<and> (\<forall>a c'. step K a Success c = Some c' \<longrightarrow>
             passengerStat (fSt c') i \<noteq> passengerStat (fSt c) i \<longrightarrow>
             a = Passenger i
             \<and> stat_rank (passengerStat (fSt c') i) = Suc (stat_rank (passengerStat (fSt c) i)))"
proof -
  have i: "inv K c" using assms(1) by (rule inv_reached)
  have u: "passengerStat (fSt (init K)) i = UNSTARTED"
    by (simp add: init_def main_while_def)
  have h: "stat_history K as i
           = take (Suc (stat_rank (passengerStat (fSt c) i)))
               [UNSTARTED, IN_QUEUE, IN_FLIGHT, AT_DESTINATION]"
    unfolding stat_history_def
    using history_from [OF inv_init assms(1), of i] u ranks_upto [of "passengerStat (fSt c) i"]
    by simp
  have q: "stat_history K as i = [UNSTARTED, IN_QUEUE, IN_FLIGHT, AT_DESTINATION]"
    if "quiescent K c"
  proof -
    from quiescent_final [OF i that] assms(2) have "passenger c i = P_return" by blast
    moreover from i assms(2) have "passengerStat (fSt c) i = stat_of (passenger c i)"
      by (simp add: inv_def inv_passengers_def)
    ultimately show ?thesis using h by simp
  qed
  from h q stat_step [OF i, of _ _ i] show ?thesis by blast
qed

theorem status_history_witness:
  "run K1 sched_full (init K1) = Some (after K1 sched_full)
   \<and> 0 < N K1
   \<and> quiescent K1 (after K1 sched_full)
   \<and> stat_history K1 sched_full 0 = [UNSTARTED, IN_QUEUE, IN_FLIGHT, AT_DESTINATION]
   \<and> run K1 [] (init K1) = Some (init K1)
   \<and> step K1 (Passenger 0) Success (init K1) = Some (move K1 (Passenger 0) (init K1))
   \<and> passengerStat (fSt (init K1)) 0 = UNSTARTED
   \<and> passengerStat (fSt (move K1 (Passenger 0) (init K1))) 0 = IN_QUEUE
   \<and> stat_rank (passengerStat (fSt (move K1 (Passenger 0) (init K1))) 0)
        = Suc (stat_rank (passengerStat (fSt (init K1)) 0))"
proof -
  have n: "0 < N K1" by (simp add: K1_def)
  have r: "run K1 [] (init K1) = Some (init K1)" by simp
  have s: "step K1 (Passenger 0) Success (init K1) = Some (move K1 (Passenger 0) (init K1))"
    by (simp add: example_defs model_defs body_defs)
  have u: "passengerStat (fSt (init K1)) 0 = UNSTARTED
      \<and> passengerStat (fSt (move K1 (Passenger 0) (init K1))) 0 = IN_QUEUE"
    by (simp add: example_defs model_defs body_defs)
  from status_history [OF r n] s u
  have "stat_rank (passengerStat (fSt (move K1 (Passenger 0) (init K1))) 0)
        = Suc (stat_rank (passengerStat (fSt (init K1)) 0))"
    by (metis passenger_stat.distinct(1))
  with status_history [OF run_sched_full n] quiescent_sched_full run_sched_full n r s u
  show ?thesis by blast
qed

end
